theory Spec2Isabelle
  imports Complex_Main "HOL-Library.Sublist" "HOL-Library.Multiset"
begin

section \<open>The live book: data model\<close>

text \<open>
  A shallow embedding of \<^verbatim>\<open>src/liveBook.js\<close>. JavaScript strings are modelled as
  \<^typ>\<open>string\<close>; the embedding is exact on ASCII text (a character outside ASCII is written
  as its UTF-8 bytes and is left alone by \<open>toLowerCase\<close>). Objects that the source mutates
  in place are records passed through the functions and returned updated. An exception of
  the source is a value: every operation that can throw returns a sum whose left injection
  is the error, and \<open>generatePassage\<close>, which changes the engine before some of its throwing
  points, returns the engine as it is left next to the outcome.

  Names follow the source. Where a field name of the source is taken, it is qualified: the
  \<open>id\<close> of a character is \<open>charId\<close> and the \<open>id\<close> of a choice is \<open>choiceId\<close>, the fields
  \<open>name\<close> and \<open>tone\<close> of an act are \<open>act_name\<close> and \<open>act_tone\<close>, the fields of a history entry
  carry the prefix \<open>rec_\<close>, and the \<open>title\<close> of the book is \<open>book_title\<close>. Methods written
  with a leading underscore in the source drop it.
\<close>

datatype js_error = TypeError

record Act =
  act_name :: string
  act_tone :: string

definition ACTS :: "Act list" where
  "ACTS =
    [\<lparr>act_name = ''Setup'', act_tone = ''curiosity and fragile optimism''\<rparr>,
     \<lparr>act_name = ''Confrontation'', act_tone = ''surging tension and difficult choices''\<rparr>,
     \<lparr>act_name = ''Resolution'', act_tone = ''reckoning and courageous synthesis''\<rparr>]"

record Stage =
  title :: string
  summary :: string

text \<open>The entries of \<open>config.characters\<close>; a \<open>Character\<close> object adds two fields to them.\<close>

record CharacterConfig =
  name :: string
  role :: string
  desire :: string
  fear :: string
  secret :: string
  arc :: "Stage list"

record Character = CharacterConfig +
  stageIndex :: nat
  charId :: string

text \<open>
  The configuration object. \<open>maxChaptersPerAct\<close> may be absent (\<open>None\<close>); the book's own
  descriptive fields carry the prefix \<open>cfg_\<close> here and \<open>book_\<close> in the engine where the
  source's name is already a field of another record.
\<close>

record Config =
  cfg_title :: string
  cfg_theme :: string
  cfg_setting :: string
  cfg_mood :: string
  cfg_maxChaptersPerAct :: "int option"
  cfg_characters :: "CharacterConfig list"

text \<open>An entry of \<open>this.history\<close>: the fields \<open>act, actName, chapter, choice, text\<close>.\<close>

record PassageRecord =
  rec_act :: nat
  rec_actName :: string
  rec_chapter :: int
  rec_choice :: string
  rec_text :: string

record Choice =
  choiceId :: string
  label :: string

record LiveBook =
  book_title :: string
  theme :: string
  setting :: string
  mood :: string
  maxChaptersPerAct :: int
  characters :: "Character list"
  actIndex :: nat
  "chapter" :: int
  history :: "PassageRecord list"
  completed :: bool
  epilogue :: string

section \<open>Strings\<close>

definition toLowerChar :: "char \<Rightarrow> char" where
  "toLowerChar c =
     (let n = (of_char c :: nat) in
      if 65 \<le> n \<and> n \<le> 90
      then (case c of Char b0 b1 b2 b3 b4 b5 b6 b7 \<Rightarrow> Char b0 b1 b2 b3 b4 True b6 b7)
      else c)"

definition toLowerCase :: "string \<Rightarrow> string" where
  "toLowerCase s = map toLowerChar s"

definition isSlugChar :: "char \<Rightarrow> bool" where
  "isSlugChar c =
     (let n = (of_char c :: nat) in (97 \<le> n \<and> n \<le> 122) \<or> (48 \<le> n \<and> n \<le> 57))"

text \<open>
  \<^verbatim>\<open>.replace(/[^a-z0-9]+/g, '-')\<close>: every maximal run of characters outside \<open>[a-z0-9]\<close>
  becomes one dash. The flag says that the scan is inside such a run.
\<close>

fun dashRunsFrom :: "bool \<Rightarrow> string \<Rightarrow> string" where
  "dashRunsFrom inRun [] = []"
| "dashRunsFrom inRun (c # cs) =
     (if isSlugChar c then c # dashRunsFrom False cs
      else if inRun then dashRunsFrom True cs
      else CHR ''-'' # dashRunsFrom True cs)"

text \<open>\<^verbatim>\<open>.replace(/(^-|-$)/g, '')\<close>: a dash at the start and a dash at the end are removed.\<close>

definition trimDashes :: "string \<Rightarrow> string" where
  "trimDashes s =
     (let s1 = (case s of [] \<Rightarrow> [] | c # cs \<Rightarrow> if c = CHR ''-'' then cs else s)
      in if s1 \<noteq> [] \<and> last s1 = CHR ''-'' then butlast s1 else s1)"

definition slugify :: "string \<Rightarrow> string" where
  "slugify text = trimDashes (dashRunsFrom False (toLowerCase text))"

text \<open>\<^verbatim>\<open>choiceId.split(':')\<close>.\<close>

fun splitColon :: "string \<Rightarrow> string list" where
  "splitColon [] = [[]]"
| "splitColon (c # cs) =
     (if c = CHR '':'' then [] # splitColon cs
      else (case splitColon cs of [] \<Rightarrow> [[c]] | p # ps \<Rightarrow> (c # p) # ps))"

definition startsWith :: "string \<Rightarrow> string \<Rightarrow> bool" where
  "startsWith s p = (take (length p) s = p)"

text \<open>\<^verbatim>\<open>list.join(sep)\<close>.\<close>

fun joinWith :: "string \<Rightarrow> string list \<Rightarrow> string" where
  "joinWith sep [] = []"
| "joinWith sep [x] = x"
| "joinWith sep (x # y # ys) = x @ sep @ joinWith sep (y # ys)"

text \<open>A value that may be \<open>undefined\<close>, interpolated into a template literal.\<close>

definition interpolate :: "string option \<Rightarrow> string" where
  "interpolate v = (case v of None \<Rightarrow> ''undefined'' | Some s \<Rightarrow> s)"

section \<open>Character\<close>

definition Character_new :: "CharacterConfig \<Rightarrow> Character" where
  "Character_new config =
     \<lparr>name = name config, role = role config, desire = desire config, fear = fear config,
      secret = secret config, arc = arc config, stageIndex = 0,
      charId = slugify (name config)\<rparr>"

text \<open>\<open>this.arc[this.stageIndex]\<close>, which is \<open>undefined\<close> out of range.\<close>

definition currentStage :: "Character \<Rightarrow> Stage option" where
  "currentStage c =
     (if stageIndex c < length (arc c) then Some (arc c ! stageIndex c) else None)"

text \<open>Returns the flag of the source and the character as the call leaves it.\<close>

definition advanceArc :: "Character \<Rightarrow> bool \<times> Character" where
  "advanceArc c =
     (if int (stageIndex c) < int (length (arc c)) - 1
      then (True, c\<lparr>stageIndex := stageIndex c + 1\<rparr>)
      else (False, c))"

section \<open>LiveBook\<close>

definition LiveBook_new :: "Config \<Rightarrow> LiveBook" where
  "LiveBook_new config =
     \<lparr>book_title = cfg_title config, theme = cfg_theme config, setting = cfg_setting config,
      mood = cfg_mood config,
      maxChaptersPerAct =
        (case cfg_maxChaptersPerAct config of None \<Rightarrow> 3 | Some n \<Rightarrow> if n = 0 then 3 else n),
      characters = map Character_new (cfg_characters config),
      actIndex = 0, chapter = 1, history = [], completed = False, epilogue = []\<rparr>"

text \<open>
  \<open>new LiveBook(config)\<close> as an expression that may throw. The constructor has no
  \<open>throw\<close> and dereferences nothing that a configuration of this type can leave undefined.
\<close>

definition construct :: "Config \<Rightarrow> js_error + LiveBook" where
  "construct config = Inr (LiveBook_new config)"

definition act :: "LiveBook \<Rightarrow> Act option" where
  "act b = (if actIndex b < length ACTS then Some (ACTS ! actIndex b) else None)"

definition isComplete :: "LiveBook \<Rightarrow> bool" where
  "isComplete b = completed b"

subsection \<open>getChoices\<close>

text \<open>
  \<open>getChoices\<close> is the one method that sorts, and \<open>Array.prototype.sort\<close> sorts the array
  it is called on in place. To tell the roster from its copy, arrays are addressed during
  the call: \<open>RosterArray\<close> is \<open>this.characters\<close>, and every array the call allocates is a
  local one. The method returns its result next to the frame it leaves behind, engine
  included.
\<close>

datatype arrayRef = RosterArray | LocalArray nat

record CallFrame =
  engine :: LiveBook
  localArrays :: "Character list list"

definition readArray :: "arrayRef \<Rightarrow> CallFrame \<Rightarrow> Character list" where
  "readArray r f =
     (case r of RosterArray \<Rightarrow> characters (engine f) | LocalArray k \<Rightarrow> localArrays f ! k)"

definition writeArray :: "arrayRef \<Rightarrow> Character list \<Rightarrow> CallFrame \<Rightarrow> CallFrame" where
  "writeArray r xs f =
     (case r of
        RosterArray \<Rightarrow> f\<lparr>engine := (engine f)\<lparr>characters := xs\<rparr>\<rparr>
      | LocalArray k \<Rightarrow> f\<lparr>localArrays := (localArrays f)[k := xs]\<rparr>)"

definition newArray :: "Character list \<Rightarrow> CallFrame \<Rightarrow> arrayRef \<times> CallFrame" where
  "newArray xs f = (LocalArray (length (localArrays f)), f\<lparr>localArrays := localArrays f @ [xs]\<rparr>)"

text \<open>\<open>[...array]\<close>: a new array with the same elements.\<close>

definition spreadCopy :: "arrayRef \<Rightarrow> CallFrame \<Rightarrow> arrayRef \<times> CallFrame" where
  "spreadCopy r f = newArray (readArray r f) f"

text \<open>
  \<open>array.sort((a, b) => a.stageIndex - b.stageIndex)\<close>: sorts the array at \<open>r\<close> in place and
  returns the same array. The sort of the language is stable, as is \<^const>\<open>sort_key\<close>, the
  insertion sort.
\<close>

definition sortByStageIndex :: "arrayRef \<Rightarrow> CallFrame \<Rightarrow> arrayRef \<times> CallFrame" where
  "sortByStageIndex r f = (r, writeArray r (sort_key stageIndex (readArray r f)) f)"

text \<open>\<open>array.slice(lo, hi)\<close> for \<open>lo \<le> hi\<close>: a new array.\<close>

definition sliceArray :: "nat \<Rightarrow> nat \<Rightarrow> arrayRef \<Rightarrow> CallFrame \<Rightarrow> arrayRef \<times> CallFrame" where
  "sliceArray lo hi r f = newArray (take (hi - lo) (drop lo (readArray r f))) f"

definition characterOption :: "Character \<Rightarrow> js_error + Choice" where
  "characterOption c =
     (case currentStage c of
        None \<Rightarrow> Inl TypeError
      | Some st \<Rightarrow>
          Inr \<lparr>choiceId = ''character:'' @ charId c,
               label = ''Follow '' @ name c @ '' as they navigate ''
                        @ toLowerCase (title st) @ ''.''\<rparr>)"

text \<open>\<open>.map\<close> with a callback that may throw: the first exception ends the call.\<close>

fun mapThrow :: "('a \<Rightarrow> js_error + 'b) \<Rightarrow> 'a list \<Rightarrow> js_error + 'b list" where
  "mapThrow f [] = Inr []"
| "mapThrow f (x # xs) =
     (case f x of
        Inl e \<Rightarrow> Inl e
      | Inr y \<Rightarrow> (case mapThrow f xs of Inl e \<Rightarrow> Inl e | Inr ys \<Rightarrow> Inr (y # ys)))"

definition worldOption :: "LiveBook \<Rightarrow> Choice" where
  "worldOption b =
     \<lparr>choiceId = ''world'',
      label = ''Listen to the city of '' @ setting b @ '' reveal a new facet.''\<rparr>"

definition twistLabel :: "LiveBook \<Rightarrow> string" where
  "twistLabel b =
     (if int (actIndex b) < int (length ACTS) - 1
      then ''Complicate the central tension that binds everyone together.''
      else ''Let the consequences of every choice crash together.'')"

definition twistOption :: "LiveBook \<Rightarrow> Choice" where
  "twistOption b = \<lparr>choiceId = ''twist'', label = twistLabel b\<rparr>"

definition getChoices :: "LiveBook \<Rightarrow> (js_error + Choice list) \<times> CallFrame" where
  "getChoices b =
     (let f0 = \<lparr>engine = b, localArrays = []\<rparr>
      in if completed (engine f0) then (Inr [], f0)
         else
           (let (copy, f1) = spreadCopy RosterArray f0;
                (sortedCharacters, f2) = sortByStageIndex copy f1;
                (firstTwo, f3) = sliceArray 0 2 sortedCharacters f2
            in case mapThrow characterOption (readArray firstTwo f3) of
                 Inl e \<Rightarrow> (Inl e, f3)
               | Inr characterOptions \<Rightarrow>
                   (Inr (take 4 (characterOptions
                                   @ [worldOption (engine f3), twistOption (engine f3)])),
                    f3)))"

subsection \<open>Passages\<close>

text \<open>
  \<open>Math.random()\<close> is a parameter: \<open>rnd k\<close> is the value of the \<open>k\<close>-th call made while one
  passage is generated, a real number where the source has a double.
  \<open>list[Math.floor(r * list.length)]\<close> is \<open>undefined\<close> when the index is out of range.
\<close>

definition randomChoice :: "real \<Rightarrow> 'a list \<Rightarrow> 'a option" where
  "randomChoice r xs =
     (let i = \<lfloor>r * real (length xs)\<rfloor>
      in if 0 \<le> i \<and> i < int (length xs) then Some (xs ! nat i) else None)"

definition sensations :: "string list" where
  "sensations =
     [''shimmering conduits of light shimmer'',
      ''wind harps hum in sympathetic resonance'',
      ''floating gardens pulse with phosphorescent pollen'',
      ''clockwork gulls sketch elaborate sigils across the clouds'']"

definition catalysts :: "string list" where
  "catalysts =
     [''an unexpected breach of protocol'',
      ''a relic illuminated by auroral fire'',
      ''a sudden collapse of a light-bridge'',
      ''a memory thread unspooling in public'']"

definition reflections :: "string list" where
  "reflections =
     [''starlight refracts through crystal rain'',
      ''choruses of gliders echo between suspended plazas'',
      ''the chronometers shudder, counting breaths instead of seconds'',
      ''an auroral tide sketches promises across the horizon'']"

definition generateWorldPassage :: "LiveBook \<Rightarrow> (nat \<Rightarrow> real) \<Rightarrow> js_error + string list" where
  "generateWorldPassage b rnd =
     (let witnesses = map name (characters b)
      in case act b of
           None \<Rightarrow> Inl TypeError
         | Some a \<Rightarrow>
             Inr [''The city of '' @ setting b @ '' exhales through '' @ act_tone a
                    @ ''. Overhead, '' @ interpolate (randomChoice (rnd 0) sensations)
                    @ '', folding the skyline into fresh geometry.'',
                  ''Citizens pause, and even '' @ interpolate (randomChoice (rnd 1) witnesses)
                    @ '' senses the quiet adjustment. The world itself is annotating the margins of the tale, reminding every traveler that the setting is a collaborator, not a backdrop.'',
                  ''The theme of '' @ toLowerCase (theme b)
                    @ '' gains a new verse as the architecture replies to the people''
                    @ [CHR 0x27]
                    @ ''s heartbeat, inviting the reader to linger within the evolving atlas.''])"

text \<open>
  With \<open>first\<close> undefined the source throws: inside the filter callback (\<open>first.id\<close>) when
  the roster has members, at \<open>first.name\<close> when it has none.
\<close>

definition generateTwistPassage :: "LiveBook \<Rightarrow> (nat \<Rightarrow> real) \<Rightarrow> js_error + string list" where
  "generateTwistPassage b rnd =
     (case randomChoice (rnd 0) (characters b) of
        None \<Rightarrow> Inl TypeError
      | Some first \<Rightarrow>
          (let second =
                 (case randomChoice (rnd 1)
                         (filter (\<lambda>character. charId character \<noteq> charId first) (characters b)) of
                    None \<Rightarrow> first
                  | Some other \<Rightarrow> other);
               catalyst = randomChoice (rnd 2) catalysts
           in case act b of
                None \<Rightarrow> Inl TypeError
              | Some a \<Rightarrow>
                  Inr [name first @ '' and '' @ name second
                         @ '' collide beneath a sky trembling with '' @ act_tone a
                         @ ''. Between them hangs '' @ interpolate catalyst
                         @ '', forcing them to reveal priorities sharpened by the storm season.'',
                       name first @ '' leans into hard-earned instincts while '' @ name second
                         @ '' weighs the cost of silence. Their choices braid together, tightening the weave of ''
                         @ toLowerCase (theme b) @ ''.'',
                       ''The chapter ends with the city tilting ever so slightly, promising that every heartbeat will be counted when the reckoning arrives.'']))"

text \<open>\<open>Array.prototype.find\<close>, returning the position of the element found.\<close>

fun findIndex :: "('a \<Rightarrow> bool) \<Rightarrow> 'a list \<Rightarrow> nat option" where
  "findIndex P [] = None"
| "findIndex P (x # xs) =
     (if P x then Some 0 else (case findIndex P xs of None \<Rightarrow> None | Some i \<Rightarrow> Some (Suc i)))"

text \<open>
  The source returns the \<open>Character\<close> object, which \<open>_generateCharacterPassage\<close> then
  mutates; the embedding returns its position in \<open>this.characters\<close>, which is what the
  reference stands for. \<open>None\<close> is \<open>undefined\<close>.
\<close>

definition findCharacterByChoice :: "LiveBook \<Rightarrow> string \<Rightarrow> nat option" where
  "findCharacterByChoice b cid =
     (case splitColon cid of
        _ # slug # _ \<Rightarrow> findIndex (\<lambda>character. charId character = slug) (characters b)
      | _ \<Rightarrow> None)"

definition generateCharacterPassage ::
  "LiveBook \<Rightarrow> nat option \<Rightarrow> (nat \<Rightarrow> real) \<Rightarrow> (js_error + string list) \<times> LiveBook" where
  "generateCharacterPassage b target rnd =
     (case target of
        None \<Rightarrow> (Inl TypeError, b)
      | Some i \<Rightarrow>
          (let character = characters b ! i;
               beforeStage = currentStage character;
               (progressed, character') = advanceArc character;
               b' = b\<lparr>characters := (characters b)[i := character']\<rparr>;
               afterStage = currentStage character'
           in case (beforeStage, afterStage, act b') of
                (Some stageBefore, Some stageAfter, Some a) \<Rightarrow>
                  (Inr [name character' @ '' threads through '' @ setting b'
                          @ '', remembering that '' @ toLowerCase (summary stageBefore)
                          @ ''. The air tastes like '' @ act_tone a
                          @ '', coaxing dormant hopes awake.'',
                        (if progressed
                         then name character' @ '' steps into '' @ toLowerCase (title stageAfter)
                                @ '', '' @ toLowerCase (summary stageAfter)
                                @ ''. The choice feels irreversible, yet necessary.''
                         else name character' @ '' circles the cusp of ''
                                @ toLowerCase (title stageAfter)
                                @ '', unable to move beyond the gravity of expectation.''),
                        ''Above, '' @ interpolate (randomChoice (rnd 0) reflections)
                          @ '', and the theme of '' @ toLowerCase (theme b')
                          @ '' sharpens. The reader feels the page writing itself, propelled by ''
                          @ name character' @ [CHR 0x27] @ ''s evolving arc.''],
                   b')
              | _ \<Rightarrow> (Inl TypeError, b')))"

definition advanceStructure :: "LiveBook \<Rightarrow> LiveBook" where
  "advanceStructure b =
     (if chapter b \<ge> maxChaptersPerAct b then
        (if int (actIndex b) \<ge> int (length ACTS) - 1 then b\<lparr>completed := True\<rparr>
         else b\<lparr>actIndex := actIndex b + 1, chapter := 1\<rparr>)
      else b\<lparr>chapter := chapter b + 1\<rparr>)"

definition arcClosure :: "Character \<Rightarrow> js_error + string" where
  "arcClosure character =
     (case currentStage character of
        None \<Rightarrow> Inl TypeError
      | Some st \<Rightarrow>
          Inr (name character @ '' resolves within '' @ title st @ '', ''
                 @ toLowerCase (summary st) @ ''.''))"

definition generateEpilogue :: "LiveBook \<Rightarrow> js_error + string" where
  "generateEpilogue b =
     (case mapThrow arcClosure (characters b) of
        Inl e \<Rightarrow> Inl e
      | Inr arcClosures \<Rightarrow>
          Inr ([CHR 0x0A] @ ''Epilogue '' @ [CHR 0xE2, CHR 0x80, CHR 0x94]
                 @ '' The living book settles. '' @ joinWith '' '' arcClosures
                 @ '' Together they prove that '' @ toLowerCase (theme b)
                 @ '' can carry a city beyond the storm.''))"

definition alreadyFinished :: string where
  "alreadyFinished = ''The book has already reached its cadence.''"

definition hesitation :: string where
  "hesitation = ''The narrative hesitates, unsure of the requested path.''"

text \<open>The immediately invoked \<open>switch\<close> of \<open>generatePassage\<close>.\<close>

definition paragraphsFor ::
  "LiveBook \<Rightarrow> Choice \<Rightarrow> (nat \<Rightarrow> real) \<Rightarrow> (js_error + string list) \<times> LiveBook" where
  "paragraphsFor b choice rnd =
     (if choiceId choice = ''world'' then (generateWorldPassage b rnd, b)
      else if choiceId choice = ''twist'' then (generateTwistPassage b rnd, b)
      else if startsWith (choiceId choice) ''character:''
        then generateCharacterPassage b (findCharacterByChoice b (choiceId choice)) rnd
      else (Inr [hesitation], b))"

text \<open>
  The outcome is the string returned or the exception thrown; the second component is the
  engine after the call, also when the call throws.
\<close>

definition generatePassage ::
  "LiveBook \<Rightarrow> Choice \<Rightarrow> (nat \<Rightarrow> real) \<Rightarrow> (js_error + string) \<times> LiveBook" where
  "generatePassage b choice rnd =
     (if completed b then (Inr alreadyFinished, b)
      else
        (case act b of
           None \<Rightarrow> (Inl TypeError, b)
         | Some a \<Rightarrow>
             (let record = \<lparr>rec_act = actIndex b + 1, rec_actName = act_name a,
                            rec_chapter = chapter b, rec_choice = label choice,
                            rec_text = []\<rparr>
              in case paragraphsFor b choice rnd of
                   (Inl e, b1) \<Rightarrow> (Inl e, b1)
                 | (Inr paragraphs, b1) \<Rightarrow>
                     (let record' = record\<lparr>rec_text := joinWith [CHR 0x0A, CHR 0x0A] paragraphs\<rparr>;
                          b2 = b1\<lparr>history := history b1 @ [record']\<rparr>;
                          b3 = advanceStructure b2
                      in if completed b3
                         then (case generateEpilogue b3 of
                                 Inl e \<Rightarrow> (Inl e, b3)
                               | Inr ep \<Rightarrow> (Inr (rec_text record'), b3\<lparr>epilogue := ep\<rparr>))
                         else (Inr (rec_text record'), b3)))))"

subsection \<open>Sequences of calls\<close>

type_synonym call = "Choice \<times> (nat \<Rightarrow> real)"

text \<open>The engine after a sequence of \<open>generatePassage\<close> calls, each with its random draws.\<close>

fun runCalls :: "LiveBook \<Rightarrow> call list \<Rightarrow> LiveBook" where
  "runCalls b [] = b"
| "runCalls b (c # cs) = runCalls (snd (generatePassage b (fst c) (snd c))) cs"

text \<open>
  A call is accepted when the engine is not completed and the call returns its passage;
  the other calls are answered by the sentinel or end in an exception.
\<close>

definition accepted :: "LiveBook \<Rightarrow> call \<Rightarrow> bool" where
  "accepted b c = (\<not> completed b \<and> \<not> isl (fst (generatePassage b (fst c) (snd c))))"

fun acceptedCalls :: "LiveBook \<Rightarrow> call list \<Rightarrow> nat" where
  "acceptedCalls b [] = 0"
| "acceptedCalls b (c # cs) =
     (if accepted b c then 1 else 0)
       + acceptedCalls (snd (generatePassage b (fst c) (snd c))) cs"

subsection \<open>The default story\<close>

definition defaultConfig :: Config where
  "defaultConfig =
     \<lparr>cfg_title = ''Aurora in Motion'',
      cfg_theme = ''Interdependence and the courage to rewrite inherited destinies'',
      cfg_setting = ''Ilyrion, a chain of skyborne districts linked by singing light-bridges'',
      cfg_mood = ''lyrical science fantasy humming with anticipation'',
      cfg_maxChaptersPerAct = Some 3,
      cfg_characters =
        [\<lparr>name = ''Mira Solace'',
          role = ''a cartographer of auroral currents'',
          desire = ''map a stable path through the storm season before the bridges shear apart'',
          fear = ''that a single miscalculation will send an entire district plummeting'',
          secret = ''she once erased part of a map to protect her sister from a dangerous expedition'',
          arc =
            [\<lparr>title = ''Cartographer of Light'',
              summary = ''she charts the shimmering coordinates that keep the archipelago afloat''\<rparr>,
             \<lparr>title = ''Facing the Blank Zones'',
              summary = ''she confronts the purposeful gaps left by generations who feared what the aurora might reveal''\<rparr>,
             \<lparr>title = ''Sharing the Atlas'',
              summary = ''she invites her allies to help draw a living map that responds to every heart in the city''\<rparr>]\<rparr>,
         \<lparr>name = ''Jonas Vale'',
          role = ''a conductor of memory threads'',
          desire = ''synchronize the city'' @ [CHR 0x27] @ ''s communal memories into a single guiding melody'',
          fear = ''that the discord he hides will fracture his carefully tuned harmonies'',
          secret = ''he siphons fragments of forgotten songs to keep his own grief muted'',
          arc =
            [\<lparr>title = ''Curator of Echoes'',
              summary = ''he braids together the recollections that keep the populace emotionally aligned''\<rparr>,
             \<lparr>title = ''Discordant Interruption'',
              summary = ''he admits that his orchestration silences dissent and must be unbound''\<rparr>,
             \<lparr>title = ''Resonant Conductor'',
              summary = ''he conducts a chorus that includes every fractured voice without dissolving the harmony''\<rparr>]\<rparr>,
         \<lparr>name = ''Eira Quell'',
          role = ''an engineer of tether engines'',
          desire = ''stabilize the failing core reactor before storm season peaks'',
          fear = ''that the system will expose her childhood sabotage meant to free a trapped district'',
          secret = ''she once severed a tether to liberate her neighborhood from corporate oversight'',
          arc =
            [\<lparr>title = ''Guardian of the Tethers'',
              summary = ''she patches the machinery that anchors each district to the aurora currents''\<rparr>,
             \<lparr>title = ''Reckoning with Sabotage'',
              summary = ''she confronts how her rebellion weakened the very systems she now protects''\<rparr>,
             \<lparr>title = ''Architect of Trust'',
              summary = ''she invites the citizens to co-design the engines, sharing the burden of stewardship''\<rparr>]\<rparr>]\<rparr>"

section \<open>Vocabulary of the properties\<close>

text \<open>A sequence of \<open>advanceArc()\<close> calls on one character.\<close>

fun advanceArcTimes :: "nat \<Rightarrow> Character \<Rightarrow> Character" where
  "advanceArcTimes 0 c = c"
| "advanceArcTimes (Suc n) c = advanceArcTimes n (snd (advanceArc c))"

text \<open>The stage index points into the arc; in particular the arc is not empty.\<close>

definition stageOk :: "Character \<Rightarrow> bool" where
  "stageOk c = (stageIndex c < length (arc c))"

definition charsOk :: "LiveBook \<Rightarrow> bool" where
  "charsOk b = list_all stageOk (characters b)"

text \<open>The configurations the interface admits: every arc has a stage.\<close>

definition arcsNonEmpty :: "Config \<Rightarrow> bool" where
  "arcsNonEmpty config = list_all (\<lambda>c. arc c \<noteq> []) (cfg_characters config)"

text \<open>
  The configurations the specification calls malformed: no character, a character without
  a stage, or a chapter limit that is not positive.
\<close>

definition malformed :: "Config \<Rightarrow> bool" where
  "malformed config =
     (cfg_characters config = []
      \<or> list_ex (\<lambda>c. arc c = []) (cfg_characters config)
      \<or> (case cfg_maxChaptersPerAct config of None \<Rightarrow> False | Some n \<Rightarrow> n \<le> 0))"

text \<open>
  The history entry as the specification words it: the 1-based act number, the act name and
  the chapter in effect when the passage is requested, the label of the choice, and the
  paragraphs joined by a blank line.
\<close>

definition passageRecord :: "LiveBook \<Rightarrow> Choice \<Rightarrow> string list \<Rightarrow> PassageRecord" where
  "passageRecord b choice paragraphs =
     \<lparr>rec_act = actIndex b + 1, rec_actName = act_name (ACTS ! actIndex b),
      rec_chapter = chapter b, rec_choice = label choice,
      rec_text = joinWith [CHR 0x0A, CHR 0x0A] paragraphs\<rparr>"

text \<open>The history the specification expects: one entry per accepted call, in call order.\<close>

fun expectedHistory :: "LiveBook \<Rightarrow> call list \<Rightarrow> PassageRecord list" where
  "expectedHistory b [] = []"
| "expectedHistory b (c # cs) =
     (if accepted b c
      then [passageRecord b (fst c) (projr (fst (paragraphsFor b (fst c) (snd c))))]
      else [])
     @ expectedHistory (snd (generatePassage b (fst c) (snd c))) cs"

text \<open>The engine once a passage is recorded and the structure has advanced.\<close>

definition turnPage :: "LiveBook \<Rightarrow> Character list \<Rightarrow> PassageRecord \<Rightarrow> LiveBook" where
  "turnPage b cs r = advanceStructure (b\<lparr>characters := cs, history := history b @ [r]\<rparr>)"

text \<open>
  The number of calls of a sequence that take the engine into the completed state; these are
  the calls that reach \<open>this.epilogue = this._generateEpilogue()\<close>.
\<close>

fun terminalTransitions :: "LiveBook \<Rightarrow> call list \<Rightarrow> nat" where
  "terminalTransitions b [] = 0"
| "terminalTransitions b (c # cs) =
     (if \<not> completed b \<and> completed (snd (generatePassage b (fst c) (snd c))) then 1 else 0)
       + terminalTransitions (snd (generatePassage b (fst c) (snd c))) cs"

text \<open>
  The calls of a sequence that are not answered "already finished": those made while the
  engine is not completed, whatever becomes of them.
\<close>

fun requestedCalls :: "LiveBook \<Rightarrow> call list \<Rightarrow> nat" where
  "requestedCalls b [] = 0"
| "requestedCalls b (c # cs) =
     (if completed b then 0 else 1)
       + requestedCalls (snd (generatePassage b (fst c) (snd c))) cs"

text \<open>How many passages lie behind a state of the act and chapter counters.\<close>

definition position :: "LiveBook \<Rightarrow> int" where
  "position b =
     (if completed b then 3 * maxChaptersPerAct b
      else int (actIndex b) * maxChaptersPerAct b + chapter b - 1)"

definition structureOk :: "LiveBook \<Rightarrow> bool" where
  "structureOk b =
     (0 < maxChaptersPerAct b \<and> actIndex b < 3 \<and> 1 \<le> chapter b
      \<and> chapter b \<le> maxChaptersPerAct b
      \<and> (if completed b then generateEpilogue b = Inr (epilogue b) else epilogue b = []))"

subsection \<open>Small configurations\<close>

definition soloConfig :: Config where
  "soloConfig =
     \<lparr>cfg_title = ''Solo'', cfg_theme = ''Hope'', cfg_setting = ''Ys'', cfg_mood = ''calm'',
      cfg_maxChaptersPerAct = Some 1,
      cfg_characters =
        [\<lparr>name = ''Ada'', role = ''a pilot'', desire = ''fly'', fear = ''falling'',
          secret = ''none'',
          arc = [\<lparr>title = ''Dawn'', summary = ''She Wakes''\<rparr>,
                 \<lparr>title = ''Dusk'', summary = ''She Rests''\<rparr>]\<rparr>]\<rparr>"

definition hollowConfig :: Config where
  "hollowConfig =
     \<lparr>cfg_title = ''Hollow'', cfg_theme = ''Hope'', cfg_setting = ''Ys'', cfg_mood = ''calm'',
      cfg_maxChaptersPerAct = Some 1,
      cfg_characters =
        [\<lparr>name = ''Bo'', role = ''a ghost'', desire = ''rest'', fear = ''light'',
          secret = ''none'', arc = []\<rparr>]\<rparr>"

definition vacantConfig :: Config where
  "vacantConfig =
     \<lparr>cfg_title = ''Vacant'', cfg_theme = ''Hope'', cfg_setting = ''Ys'', cfg_mood = ''calm'',
      cfg_maxChaptersPerAct = Some (- 2), cfg_characters = []\<rparr>"

definition noDraw :: "nat \<Rightarrow> real" where
  "noDraw k = 0"

definition worldChoice :: Choice where
  "worldChoice = \<lparr>choiceId = ''world'', label = ''Listen''\<rparr>"

definition twistChoice :: Choice where
  "twistChoice = \<lparr>choiceId = ''twist'', label = ''Complicate''\<rparr>"

definition bogusChoice :: Choice where
  "bogusChoice = \<lparr>choiceId = ''bogus'', label = ''Bogus''\<rparr>"

definition boChoice :: Choice where
  "boChoice = \<lparr>choiceId = ''character:bo'', label = ''Follow Bo''\<rparr>"

definition nobodyChoice :: Choice where
  "nobodyChoice = \<lparr>choiceId = ''character:nobody'', label = ''Follow nobody''\<rparr>"

definition threeCalls :: "call list" where
  "threeCalls = [(bogusChoice, noDraw), (bogusChoice, noDraw), (bogusChoice, noDraw)]"

definition hollowCalls :: "call list" where
  "hollowCalls = (boChoice, noDraw) # threeCalls"

definition miraChoice :: Choice where
  "miraChoice = \<lparr>choiceId = ''character:mira-solace'', label = ''Follow Mira''\<rparr>"

section \<open>Lemmas\<close>

lemma js_error_TypeError [simp]: "(e :: js_error) = TypeError"
  by (cases e) simp

lemma advanceArc_stageOk: "stageOk c \<Longrightarrow> stageOk (snd (advanceArc c))"
  by (auto simp: stageOk_def advanceArc_def)

lemma advanceArc_fields [simp]:
  "arc (snd (advanceArc c)) = arc c"
  "name (snd (advanceArc c)) = name c"
  "charId (snd (advanceArc c)) = charId c"
  by (simp_all add: advanceArc_def)

lemma advanceArc_mono: "stageIndex c \<le> stageIndex (snd (advanceArc c))"
  by (simp add: advanceArc_def)

lemma advanceArc_not_ok: "\<not> stageOk c \<Longrightarrow> advanceArc c = (False, c)"
  by (auto simp: stageOk_def advanceArc_def)

lemma currentStage_Some_iff: "(\<exists>st. currentStage c = Some st) \<longleftrightarrow> stageOk c"
  by (simp add: currentStage_def stageOk_def)

lemma nth_list_update_any:
  "j < length xs \<Longrightarrow> xs[i := x] ! j = (if i = j then x else xs ! j)"
  by (cases "i < length xs") (simp_all add: nth_list_update)

text \<open>The position that stands for the character found is a position of the roster.\<close>

lemma findIndex_less: "findIndex P xs = Some i \<Longrightarrow> i < length xs"
  by (induction xs arbitrary: i) (auto split: if_splits option.splits)

lemma findCharacterByChoice_less:
  "findCharacterByChoice b cid = Some i \<Longrightarrow> i < length (characters b)"
  by (auto simp: findCharacterByChoice_def dest: findIndex_less split: list.splits)

lemma act_update_characters [simp]: "act (b\<lparr>characters := cs\<rparr>) = act b"
  by (simp add: act_def)

lemma generateCharacterPassage_state:
  "snd (generateCharacterPassage b t rnd) =
     (case t of None \<Rightarrow> b
      | Some i \<Rightarrow> b\<lparr>characters := (characters b)[i := snd (advanceArc (characters b ! i))]\<rparr>)"
  by (simp add: generateCharacterPassage_def Let_def split: option.splits prod.splits)

lemma generateCharacterPassage_throws:
  assumes "act b \<noteq> None" and "isl (fst (generateCharacterPassage b t rnd))"
  shows "snd (generateCharacterPassage b t rnd) = b"
proof (cases t)
  case None
  then show ?thesis by (simp add: generateCharacterPassage_state)
next
  case (Some i)
  define c where "c = characters b ! i"
  have "\<not> stageOk c"
  proof
    assume ok: "stageOk c"
    then have ok': "stageOk (snd (advanceArc c))" by (rule advanceArc_stageOk)
    from ok obtain s0 where s0: "currentStage c = Some s0"
      using currentStage_Some_iff by blast
    from ok' obtain s1 where s1: "currentStage (snd (advanceArc c)) = Some s1"
      using currentStage_Some_iff by blast
    from assms(1) obtain a where a: "act b = Some a" by blast
    from assms(2) show False
      using s0 s1 a Some
      by (simp add: generateCharacterPassage_def Let_def c_def split: prod.splits)
  qed
  then have "snd (advanceArc c) = c" by (simp add: advanceArc_not_ok)
  then show ?thesis
    by (simp add: generateCharacterPassage_state Some c_def)
qed

lemma paragraphsFor_state:
  "\<exists>cs. snd (paragraphsFor b ch rnd) = b\<lparr>characters := cs\<rparr>
      \<and> length cs = length (characters b)
      \<and> (\<forall>i < length cs. name (cs ! i) = name (characters b ! i)
             \<and> arc (cs ! i) = arc (characters b ! i)
             \<and> charId (cs ! i) = charId (characters b ! i)
             \<and> stageIndex (characters b ! i) \<le> stageIndex (cs ! i))
      \<and> (list_all stageOk (characters b) \<longrightarrow> list_all stageOk cs)"
proof (cases "choiceId ch \<noteq> ''world'' \<and> choiceId ch \<noteq> ''twist'' \<and> startsWith (choiceId ch) ''character:''")
  case False
  then have "snd (paragraphsFor b ch rnd) = b\<lparr>characters := characters b\<rparr>"
    by (auto simp: paragraphsFor_def)
  then show ?thesis by blast
next
  case True
  show ?thesis
  proof (cases "findCharacterByChoice b (choiceId ch)")
    case None
    with True have "snd (paragraphsFor b ch rnd) = b\<lparr>characters := characters b\<rparr>"
      by (simp add: paragraphsFor_def generateCharacterPassage_state)
    then show ?thesis by blast
  next
    case (Some i)
    define cs where "cs = (characters b)[i := snd (advanceArc (characters b ! i))]"
    have st: "snd (paragraphsFor b ch rnd) = b\<lparr>characters := cs\<rparr>"
      using True Some by (simp add: paragraphsFor_def generateCharacterPassage_state cs_def)
    have len: "length cs = length (characters b)" by (simp add: cs_def)
    have elems: "\<forall>j < length cs. name (cs ! j) = name (characters b ! j)
             \<and> arc (cs ! j) = arc (characters b ! j)
             \<and> charId (cs ! j) = charId (characters b ! j)
             \<and> stageIndex (characters b ! j) \<le> stageIndex (cs ! j)"
      by (simp add: cs_def nth_list_update_any advanceArc_mono)
    have ok: "list_all stageOk (characters b) \<longrightarrow> list_all stageOk cs"
      by (auto simp: cs_def list_all_length nth_list_update_any advanceArc_stageOk)
    from st len elems ok show ?thesis by blast
  qed
qed

lemma paragraphsFor_throws:
  assumes "act b \<noteq> None" and "isl (fst (paragraphsFor b ch rnd))"
  shows "snd (paragraphsFor b ch rnd) = b"
  using assms generateCharacterPassage_throws [of b "findCharacterByChoice b (choiceId ch)" rnd]
  by (auto simp: paragraphsFor_def split: if_splits)

lemma advanceArcTimes_arc [simp]: "arc (advanceArcTimes n c) = arc c"
  by (induction n arbitrary: c) simp_all

lemma advanceArcTimes_stageOk: "stageOk c \<Longrightarrow> stageOk (advanceArcTimes n c)"
  by (induction n arbitrary: c) (simp_all add: advanceArc_stageOk)

lemma advanceArcTimes_mono: "stageIndex c \<le> stageIndex (advanceArcTimes n c)"
proof (induction n arbitrary: c)
  case 0
  show ?case by simp
next
  case (Suc n)
  have "stageIndex c \<le> stageIndex (snd (advanceArc c))" by (rule advanceArc_mono)
  also have "\<dots> \<le> stageIndex (advanceArcTimes n (snd (advanceArc c)))" by (rule Suc.IH)
  finally show ?case by simp
qed

lemma Character_new_stageOk: "arc config \<noteq> [] \<Longrightarrow> stageOk (Character_new config)"
  by (simp add: stageOk_def Character_new_def)

lemma generatePassage_throws_early:
  assumes "\<not> completed b" and "act b = None \<or> isl (fst (paragraphsFor b ch rnd))"
  shows "generatePassage b ch rnd = (Inl TypeError, b)"
proof (cases "act b")
  case None
  with assms(1) show ?thesis by (simp add: generatePassage_def)
next
  case (Some a)
  with assms(2) have thr: "isl (fst (paragraphsFor b ch rnd))" by simp
  then have "snd (paragraphsFor b ch rnd) = b"
    using Some by (intro paragraphsFor_throws) simp_all
  with thr have "paragraphsFor b ch rnd = (Inl TypeError, b)"
    by (cases "paragraphsFor b ch rnd") (auto simp: isl_def)
  with assms(1) Some show ?thesis by (simp add: generatePassage_def)
qed

lemma generatePassage_records:
  assumes nc: "\<not> completed b" and a: "act b = Some a"
      and pf: "paragraphsFor b ch rnd = (Inr ps, b1)"
  shows "generatePassage b ch rnd =
     (let b3 = advanceStructure (b1\<lparr>history := history b1 @ [passageRecord b ch ps]\<rparr>)
      in if completed b3
         then (case generateEpilogue b3 of
                 Inl e \<Rightarrow> (Inl e, b3)
               | Inr ep \<Rightarrow> (Inr (joinWith [CHR 0x0A, CHR 0x0A] ps), b3\<lparr>epilogue := ep\<rparr>))
         else (Inr (joinWith [CHR 0x0A, CHR 0x0A] ps), b3))"
proof -
  have "actIndex b < length ACTS" "a = ACTS ! actIndex b"
    using a by (auto simp: act_def split: if_splits)
  then show ?thesis
    using nc a pf by (simp add: generatePassage_def passageRecord_def Let_def split: sum.splits)
qed

lemma advanceStructure_frame [simp]:
  "history (advanceStructure b) = history b"
  "characters (advanceStructure b) = characters b"
  "maxChaptersPerAct (advanceStructure b) = maxChaptersPerAct b"
  "epilogue (advanceStructure b) = epilogue b"
  "theme (advanceStructure b) = theme b"
  "setting (advanceStructure b) = setting b"
  "mood (advanceStructure b) = mood b"
  "book_title (advanceStructure b) = book_title b"
  by (simp_all add: advanceStructure_def)

lemma length_ACTS [simp]: "length ACTS = 3"
  by (simp add: ACTS_def)

lemma advanceStructure_transition:
  "\<not> completed b \<Longrightarrow>
   (if chapter b < maxChaptersPerAct b
    then actIndex (advanceStructure b) = actIndex b
       \<and> chapter (advanceStructure b) = chapter b + 1
       \<and> \<not> completed (advanceStructure b)
    else if actIndex b < 2
    then actIndex (advanceStructure b) = actIndex b + 1
       \<and> chapter (advanceStructure b) = 1
       \<and> \<not> completed (advanceStructure b)
    else actIndex (advanceStructure b) = actIndex b
       \<and> chapter (advanceStructure b) = chapter b
       \<and> completed (advanceStructure b))"
  by (auto simp: advanceStructure_def)

lemma generateEpilogue_cong:
  "characters b = characters b' \<Longrightarrow> theme b = theme b' \<Longrightarrow>
   generateEpilogue b = generateEpilogue b'"
  by (simp add: generateEpilogue_def split: sum.splits)

lemma turnPage_frame [simp]:
  "history (turnPage b cs r) = history b @ [r]"
  "characters (turnPage b cs r) = cs"
  "maxChaptersPerAct (turnPage b cs r) = maxChaptersPerAct b"
  "epilogue (turnPage b cs r) = epilogue b"
  "theme (turnPage b cs r) = theme b"
  "setting (turnPage b cs r) = setting b"
  "mood (turnPage b cs r) = mood b"
  "book_title (turnPage b cs r) = book_title b"
  by (simp_all add: turnPage_def)

lemma turnPage_transition:
  assumes "\<not> completed b"
  shows "(if chapter b < maxChaptersPerAct b
    then actIndex (turnPage b cs r) = actIndex b
       \<and> chapter (turnPage b cs r) = chapter b + 1
       \<and> \<not> completed (turnPage b cs r)
    else if actIndex b < 2
    then actIndex (turnPage b cs r) = actIndex b + 1
       \<and> chapter (turnPage b cs r) = 1
       \<and> \<not> completed (turnPage b cs r)
    else actIndex (turnPage b cs r) = actIndex b
       \<and> chapter (turnPage b cs r) = chapter b
       \<and> completed (turnPage b cs r))"
  using advanceStructure_transition [of "b\<lparr>characters := cs, history := history b @ [r]\<rparr>"] assms
  by (simp add: turnPage_def)

lemma generatePassage_turnPage:
  assumes nc: "\<not> completed b" and a: "act b \<noteq> None"
      and pf: "fst (paragraphsFor b ch rnd) = Inr ps"
  shows "generatePassage b ch rnd =
     (let b3 = turnPage b (characters (snd (paragraphsFor b ch rnd))) (passageRecord b ch ps)
      in if completed b3
         then (case generateEpilogue b3 of
                 Inl e \<Rightarrow> (Inl TypeError, b3)
               | Inr ep \<Rightarrow> (Inr (joinWith [CHR 0x0A, CHR 0x0A] ps), b3\<lparr>epilogue := ep\<rparr>))
         else (Inr (joinWith [CHR 0x0A, CHR 0x0A] ps), b3))"
proof -
  obtain cs where cs: "snd (paragraphsFor b ch rnd) = b\<lparr>characters := cs\<rparr>"
    using paragraphsFor_state [of b ch rnd] by blast
  with pf have pf': "paragraphsFor b ch rnd = (Inr ps, b\<lparr>characters := cs\<rparr>)"
    by (cases "paragraphsFor b ch rnd") simp
  from a obtain a' where a': "act b = Some a'" by blast
  show ?thesis
    unfolding generatePassage_records [OF nc a' pf'] cs
    by (simp add: turnPage_def Let_def split: sum.splits)
qed

lemma generatePassage_recorded_fields:
  assumes nc: "\<not> completed b" and a: "act b \<noteq> None"
      and pf: "fst (paragraphsFor b ch rnd) = Inr ps"
      and b3: "b3 = turnPage b (characters (snd (paragraphsFor b ch rnd))) (passageRecord b ch ps)"
      and b': "b' = snd (generatePassage b ch rnd)"
  shows "actIndex b' = actIndex b3" and "chapter b' = chapter b3"
    and "completed b' = completed b3"
    and "history b' = history b @ [passageRecord b ch ps]"
    and "characters b' = characters (snd (paragraphsFor b ch rnd))"
    and "maxChaptersPerAct b' = maxChaptersPerAct b"
    and "theme b' = theme b"
    and "generateEpilogue b' = generateEpilogue b3"
    and "epilogue b' =
          (if completed b3
           then (case generateEpilogue b3 of Inl e \<Rightarrow> epilogue b | Inr ep \<Rightarrow> ep)
           else epilogue b)"
    and "fst (generatePassage b ch rnd) =
          (if completed b3 \<and> isl (generateEpilogue b3) then Inl TypeError
           else Inr (joinWith [CHR 0x0A, CHR 0x0A] ps))"
proof -
  note gp = generatePassage_turnPage [OF nc a pf, folded b3]
  show "actIndex b' = actIndex b3" by (simp add: b' gp Let_def split: sum.splits)
  show "chapter b' = chapter b3" by (simp add: b' gp Let_def split: sum.splits)
  show "completed b' = completed b3" by (simp add: b' gp Let_def split: sum.splits)
  show "history b' = history b @ [passageRecord b ch ps]"
    by (simp add: b' gp Let_def b3 split: sum.splits)
  show cs: "characters b' = characters (snd (paragraphsFor b ch rnd))"
    by (simp add: b' gp Let_def b3 split: sum.splits)
  show "maxChaptersPerAct b' = maxChaptersPerAct b"
    by (simp add: b' gp Let_def b3 split: sum.splits)
  show th: "theme b' = theme b"
    by (simp add: b' gp Let_def b3 split: sum.splits)
  show "generateEpilogue b' = generateEpilogue b3"
    by (rule generateEpilogue_cong) (simp_all add: cs th, simp_all add: b3)
  show "epilogue b' =
          (if completed b3
           then (case generateEpilogue b3 of Inl e \<Rightarrow> epilogue b | Inr ep \<Rightarrow> ep)
           else epilogue b)"
    by (simp add: b' gp Let_def split: sum.splits) (simp add: b3)
  show "fst (generatePassage b ch rnd) =
          (if completed b3 \<and> isl (generateEpilogue b3) then Inl TypeError
           else Inr (joinWith [CHR 0x0A, CHR 0x0A] ps))"
    by (simp add: gp Let_def split: sum.splits)
qed

lemma generatePassage_completed: "completed b \<Longrightarrow> generatePassage b ch rnd = (Inr alreadyFinished, b)"
  by (simp add: generatePassage_def)

lemma runCalls_completed: "completed b \<Longrightarrow> runCalls b cs = b"
  by (induction cs) (simp_all add: generatePassage_completed)

lemma terminalTransitions_count:
  "terminalTransitions b cs = (if \<not> completed b \<and> completed (runCalls b cs) then 1 else 0)"
proof (induction cs arbitrary: b)
  case Nil
  show ?case by simp
next
  case (Cons c cs)
  define b' where "b' = snd (generatePassage b (fst c) (snd c))"
  show ?case
  proof (cases "completed b")
    case True
    then have "b' = b" by (simp add: b'_def generatePassage_completed)
    with True Cons.IH [of b] show ?thesis
      by (simp add: generatePassage_completed)
  next
    case False
    show ?thesis
    proof (cases "completed b'")
      case True
      then have "runCalls b' cs = b'" by (rule runCalls_completed)
      with True False Cons.IH [of b'] show ?thesis
        by (simp add: b'_def [symmetric])
    next
      case nc: False
      with False Cons.IH [of b'] show ?thesis
        by (simp add: b'_def [symmetric])
    qed
  qed
qed

lemma mapThrow_Inr_iff: "mapThrow f xs = Inr ys \<longleftrightarrow> map f xs = map Inr ys"
proof (induction xs arbitrary: ys)
  case Nil
  show ?case by auto
next
  case (Cons x xs)
  show ?case
  proof (cases "f x")
    case (Inl e)
    then show ?thesis by (cases ys) auto
  next
    case (Inr y)
    show ?thesis
    proof (cases "mapThrow f xs")
      case (Inl e)
      with Inr Cons.IH show ?thesis by (cases ys) auto
    next
      case r: (Inr zs)
      with Inr Cons.IH [of zs] Cons.IH show ?thesis by (cases ys) auto
    qed
  qed
qed

lemma mapThrow_total:
  assumes "\<forall>x \<in> set xs. \<not> isl (f x)"
  shows "\<exists>ys. mapThrow f xs = Inr ys"
  using assms
proof (induction xs)
  case Nil
  show ?case by simp
next
  case (Cons x xs)
  then obtain ys where "mapThrow f xs = Inr ys" by auto
  moreover from Cons.prems obtain y where "f x = Inr y" by (cases "f x") auto
  ultimately show ?case by simp
qed

lemma arcClosure_ok: "stageOk c \<Longrightarrow> \<not> isl (arcClosure c)"
  by (simp add: arcClosure_def currentStage_def stageOk_def)

lemma characterOption_ok: "stageOk c \<Longrightarrow> \<not> isl (characterOption c)"
  by (simp add: characterOption_def currentStage_def stageOk_def)

lemma generateEpilogue_ok:
  assumes "charsOk b"
  shows "\<exists>ep. generateEpilogue b = Inr ep"
proof -
  have "\<forall>c \<in> set (characters b). \<not> isl (arcClosure c)"
    using assms by (auto simp: charsOk_def list_all_iff arcClosure_ok)
  then obtain ys where "mapThrow arcClosure (characters b) = Inr ys"
    using mapThrow_total by blast
  then show ?thesis by (simp add: generateEpilogue_def)
qed

lemma charsOk_paragraphsFor:
  "charsOk b \<Longrightarrow> list_all stageOk (characters (snd (paragraphsFor b ch rnd)))"
  using paragraphsFor_state [of b ch rnd] by (auto simp: charsOk_def)

text \<open>One call on an engine that is not completed: nothing happens, or a page is turned.\<close>

lemma generatePassage_step:
  assumes nc: "\<not> completed b"
  shows "generatePassage b ch rnd = (Inl TypeError, b)
       \<or> (\<exists>ps. act b \<noteq> None \<and> fst (paragraphsFor b ch rnd) = Inr ps)"
proof (cases "act b = None \<or> isl (fst (paragraphsFor b ch rnd))")
  case True
  then show ?thesis using generatePassage_throws_early [OF nc] by blast
next
  case False
  then obtain ps where "fst (paragraphsFor b ch rnd) = Inr ps"
    by (cases "fst (paragraphsFor b ch rnd)") auto
  with False show ?thesis by blast
qed

lemma charsOk_generatePassage:
  assumes "charsOk b"
  shows "charsOk (snd (generatePassage b ch rnd))"
proof (cases "completed b")
  case True
  then show ?thesis using assms by (simp add: generatePassage_completed)
next
  case False
  from generatePassage_step [OF False, of ch rnd] show ?thesis
  proof
    assume "generatePassage b ch rnd = (Inl TypeError, b)"
    then show ?thesis using assms by simp
  next
    assume "\<exists>ps. act b \<noteq> None \<and> fst (paragraphsFor b ch rnd) = Inr ps"
    then obtain ps where a: "act b \<noteq> None" and pf: "fst (paragraphsFor b ch rnd) = Inr ps"
      by blast
    have "characters (snd (generatePassage b ch rnd)) = characters (snd (paragraphsFor b ch rnd))"
      by (rule generatePassage_recorded_fields(5) [OF False a pf refl refl])
    then show ?thesis
      using charsOk_paragraphsFor [OF assms, of ch rnd] by (simp add: charsOk_def)
  qed
qed

lemma charsOk_runCalls: "charsOk b \<Longrightarrow> charsOk (runCalls b cs)"
  by (induction cs arbitrary: b) (simp_all add: charsOk_generatePassage)

lemma charsOk_new: "arcsNonEmpty config \<Longrightarrow> charsOk (LiveBook_new config)"
  by (simp add: arcsNonEmpty_def charsOk_def LiveBook_new_def list_all_iff
      Character_new_stageOk)

text \<open>With every stage index in range, a call is accepted exactly when its paragraphs are made.\<close>

lemma accepted_iff:
  assumes ok: "charsOk b" and nc: "\<not> completed b"
  shows "accepted b c \<longleftrightarrow> act b \<noteq> None \<and> \<not> isl (fst (paragraphsFor b (fst c) (snd c)))"
proof (cases "act b = None \<or> isl (fst (paragraphsFor b (fst c) (snd c)))")
  case True
  from generatePassage_throws_early [OF nc True] True nc show ?thesis
    by (auto simp: accepted_def)
next
  case False
  then have a: "act b \<noteq> None" by simp
  from False obtain ps where pf: "fst (paragraphsFor b (fst c) (snd c)) = Inr ps"
    by (cases "fst (paragraphsFor b (fst c) (snd c))") auto
  define b3 where
    "b3 = turnPage b (characters (snd (paragraphsFor b (fst c) (snd c)))) (passageRecord b (fst c) ps)"
  have "charsOk b3"
    using charsOk_paragraphsFor [OF ok, of "fst c" "snd c"] by (simp add: charsOk_def b3_def)
  then obtain ep where "generateEpilogue b3 = Inr ep" using generateEpilogue_ok by blast
  then have "fst (generatePassage b (fst c) (snd c)) = Inr (joinWith [CHR 0x0A, CHR 0x0A] ps)"
    using generatePassage_recorded_fields(10) [OF nc a pf b3_def refl] by simp
  with False nc show ?thesis by (simp add: accepted_def)
qed

lemma not_accepted_unchanged:
  assumes ok: "charsOk b" and na: "\<not> accepted b c"
  shows "snd (generatePassage b (fst c) (snd c)) = b"
proof (cases "completed b")
  case True
  then show ?thesis by (simp add: generatePassage_completed)
next
  case False
  with na accepted_iff [OF ok False, of c]
  have "act b = None \<or> isl (fst (paragraphsFor b (fst c) (snd c)))" by blast
  from generatePassage_throws_early [OF False this] show ?thesis by simp
qed

lemma accepted_history:
  assumes ok: "charsOk b" and acc: "accepted b c"
  shows "history (snd (generatePassage b (fst c) (snd c))) =
     history b @ [passageRecord b (fst c) (projr (fst (paragraphsFor b (fst c) (snd c))))]"
    and "fst (generatePassage b (fst c) (snd c)) =
     Inr (joinWith [CHR 0x0A, CHR 0x0A] (projr (fst (paragraphsFor b (fst c) (snd c)))))"
proof -
  from acc have nc: "\<not> completed b" by (simp add: accepted_def)
  from acc accepted_iff [OF ok nc, of c]
  have a: "act b \<noteq> None" and ni: "\<not> isl (fst (paragraphsFor b (fst c) (snd c)))" by simp_all
  from ni obtain ps where pf: "fst (paragraphsFor b (fst c) (snd c)) = Inr ps"
    by (cases "fst (paragraphsFor b (fst c) (snd c))") auto
  show "history (snd (generatePassage b (fst c) (snd c))) =
     history b @ [passageRecord b (fst c) (projr (fst (paragraphsFor b (fst c) (snd c))))]"
    using generatePassage_recorded_fields(4) [OF nc a pf refl refl] by (simp add: pf)
  from acc have "\<not> isl (fst (generatePassage b (fst c) (snd c)))" by (simp add: accepted_def)
  then show "fst (generatePassage b (fst c) (snd c)) =
     Inr (joinWith [CHR 0x0A, CHR 0x0A] (projr (fst (paragraphsFor b (fst c) (snd c)))))"
    using generatePassage_recorded_fields(10) [OF nc a pf refl refl]
    by (auto simp: pf split: if_splits)
qed

lemma history_runCalls:
  "charsOk b \<Longrightarrow> history (runCalls b cs) = history b @ expectedHistory b cs"
proof (induction cs arbitrary: b)
  case Nil
  show ?case by simp
next
  case (Cons c cs)
  define b' where "b' = snd (generatePassage b (fst c) (snd c))"
  have ok': "charsOk b'" unfolding b'_def by (rule charsOk_generatePassage [OF Cons.prems])
  have step: "history b' = history b @ (if accepted b c
      then [passageRecord b (fst c) (projr (fst (paragraphsFor b (fst c) (snd c))))] else [])"
  proof (cases "accepted b c")
    case True
    then show ?thesis using accepted_history(1) [OF Cons.prems True] by (simp add: b'_def)
  next
    case False
    then show ?thesis using not_accepted_unchanged [OF Cons.prems False] by (simp add: b'_def)
  qed
  show ?case
    using Cons.IH [OF ok'] step by (simp add: b'_def [symmetric])
qed

lemma length_expectedHistory: "length (expectedHistory b cs) = acceptedCalls b cs"
  by (induction cs arbitrary: b) simp_all

lemma position_le: "structureOk b \<Longrightarrow> position b \<le> 3 * maxChaptersPerAct b"
proof -
  assume s: "structureOk b"
  then have "actIndex b = 0 \<or> actIndex b = 1 \<or> actIndex b = 2"
    by (auto simp: structureOk_def)
  with s show ?thesis by (auto simp: structureOk_def position_def)
qed

lemma position_complete:
  "structureOk b \<Longrightarrow> completed b \<longleftrightarrow> position b = 3 * maxChaptersPerAct b"
proof -
  assume s: "structureOk b"
  then have "actIndex b = 0 \<or> actIndex b = 1 \<or> actIndex b = 2"
    by (auto simp: structureOk_def)
  with s show ?thesis by (auto simp: structureOk_def position_def)
qed

lemma structure_step:
  assumes ok: "charsOk b" and s: "structureOk b" and acc: "accepted b c"
  shows "structureOk (snd (generatePassage b (fst c) (snd c)))"
    and "position (snd (generatePassage b (fst c) (snd c))) = position b + 1"
    and "maxChaptersPerAct (snd (generatePassage b (fst c) (snd c))) = maxChaptersPerAct b"
proof -
  from acc have nc: "\<not> completed b" by (simp add: accepted_def)
  from acc accepted_iff [OF ok nc, of c]
  have a: "act b \<noteq> None" and ni: "\<not> isl (fst (paragraphsFor b (fst c) (snd c)))" by simp_all
  from ni obtain ps where pf: "fst (paragraphsFor b (fst c) (snd c)) = Inr ps"
    by (cases "fst (paragraphsFor b (fst c) (snd c))") auto
  define cs where "cs = characters (snd (paragraphsFor b (fst c) (snd c)))"
  define b3 where "b3 = turnPage b cs (passageRecord b (fst c) ps)"
  define b' where "b' = snd (generatePassage b (fst c) (snd c))"
  note f = generatePassage_recorded_fields [OF nc a pf b3_def [unfolded cs_def] b'_def]
  note t = turnPage_transition [OF nc, of cs "passageRecord b (fst c) ps", folded b3_def]
  have "charsOk b3"
    using charsOk_paragraphsFor [OF ok, of "fst c" "snd c"] by (simp add: charsOk_def b3_def cs_def)
  then obtain ep where ep: "generateEpilogue b3 = Inr ep" using generateEpilogue_ok by blast
  have m: "maxChaptersPerAct b' = maxChaptersPerAct b" by (rule f(6))
  have e: "epilogue b' = (if completed b3 then ep else epilogue b)"
    using f(9) ep by simp
  have ge: "generateEpilogue b' = Inr ep" using f(8) ep by simp
  have idx: "actIndex b = 0 \<or> actIndex b = 1 \<or> actIndex b = 2"
    using s by (auto simp: structureOk_def)
  show "maxChaptersPerAct b' = maxChaptersPerAct b" by (rule m)
  show "structureOk b'"
    using s nc t idx unfolding structureOk_def f(1,2,3) m e ge
    by (auto split: if_splits)
  show "position b' = position b + 1"
    using s nc t idx unfolding structureOk_def position_def f(1,2,3) m
    by (auto split: if_splits simp: algebra_simps)
qed

lemma structure_runCalls:
  assumes "charsOk b" and "structureOk b"
  shows "structureOk (runCalls b cs)
       \<and> position (runCalls b cs) = position b + int (acceptedCalls b cs)
       \<and> maxChaptersPerAct (runCalls b cs) = maxChaptersPerAct b"
  using assms
proof (induction cs arbitrary: b)
  case Nil
  then show ?case by simp
next
  case (Cons c cs)
  define b' where "b' = snd (generatePassage b (fst c) (snd c))"
  have ok': "charsOk b'" unfolding b'_def by (rule charsOk_generatePassage [OF Cons.prems(1)])
  show ?case
  proof (cases "accepted b c")
    case True
    note st = structure_step [OF Cons.prems True, folded b'_def]
    from Cons.IH [OF ok' st(1)] st(2,3) True show ?thesis
      by (simp add: b'_def [symmetric])
  next
    case False
    have "b' = b" unfolding b'_def by (rule not_accepted_unchanged [OF Cons.prems(1) False])
    with Cons.IH [OF Cons.prems] False show ?thesis
      by (simp add: b'_def [symmetric])
  qed
qed

lemma structureOk_new:
  "0 < maxChaptersPerAct (LiveBook_new config) \<Longrightarrow> structureOk (LiveBook_new config)"
  by (simp add: structureOk_def LiveBook_new_def split: option.splits if_splits)

lemma position_new: "position (LiveBook_new config) = 0"
  by (simp add: position_def LiveBook_new_def)

text \<open>The act index of a started engine stays below three whatever the chapter limit.\<close>

lemma actIndex_generatePassage:
  assumes "actIndex b < 3"
  shows "actIndex (snd (generatePassage b ch rnd)) < 3"
proof (cases "completed b")
  case True
  then show ?thesis using assms by (simp add: generatePassage_completed)
next
  case False
  from generatePassage_step [OF False, of ch rnd] show ?thesis
  proof
    assume "generatePassage b ch rnd = (Inl TypeError, b)"
    then show ?thesis using assms by simp
  next
    assume "\<exists>ps. act b \<noteq> None \<and> fst (paragraphsFor b ch rnd) = Inr ps"
    then obtain ps where a: "act b \<noteq> None" and pf: "fst (paragraphsFor b ch rnd) = Inr ps"
      by blast
    note f = generatePassage_recorded_fields(1) [OF False a pf refl refl]
    note t = turnPage_transition [OF False, of "characters (snd (paragraphsFor b ch rnd))"
        "passageRecord b ch ps"]
    show ?thesis unfolding f using t assms by (auto split: if_splits)
  qed
qed

lemma actIndex_runCalls: "actIndex b < 3 \<Longrightarrow> actIndex (runCalls b cs) < 3"
  by (induction cs arbitrary: b) (simp_all add: actIndex_generatePassage)

lemma act_reachable: "act (runCalls (LiveBook_new config) cs) \<noteq> None"
proof -
  have "actIndex (runCalls (LiveBook_new config) cs) < 3"
    by (rule actIndex_runCalls) (simp add: LiveBook_new_def)
  then show ?thesis by (simp add: act_def)
qed

lemma getChoices_result:
  "fst (getChoices b) =
     (if completed b then Inr []
      else (case mapThrow characterOption (take 2 (sort_key stageIndex (characters b))) of
              Inl e \<Rightarrow> Inl e
            | Inr copts \<Rightarrow> Inr (take 4 (copts @ [worldOption b, twistOption b]))))"
  by (simp add: getChoices_def spreadCopy_def sortByStageIndex_def sliceArray_def newArray_def
      readArray_def writeArray_def Let_def split: sum.splits)

lemma map_Inr_length: "map f xs = map Inr ys \<Longrightarrow> length ys = length xs"
  by (metis length_map)

lemma getChoices_ok:
  assumes ok: "charsOk b" and nc: "\<not> completed b"
  shows "\<exists>copts. map characterOption (take 2 (sort_key stageIndex (characters b))) = map Inr copts
             \<and> fst (getChoices b) = Inr (copts @ [worldOption b, twistOption b])"
proof -
  define S where "S = sort_key stageIndex (characters b)"
  have "\<forall>c \<in> set (take 2 S). \<not> isl (characterOption c)"
  proof
    fix c assume "c \<in> set (take 2 S)"
    then have "c \<in> set S" by (rule in_set_takeD)
    then have "c \<in> set (characters b)" by (simp add: S_def)
    with ok have "stageOk c" by (simp add: charsOk_def list_all_iff)
    then show "\<not> isl (characterOption c)" by (rule characterOption_ok)
  qed
  then obtain copts where m: "mapThrow characterOption (take 2 S) = Inr copts"
    using mapThrow_total by blast
  then have eq: "map characterOption (take 2 S) = map Inr copts" by (simp add: mapThrow_Inr_iff)
  then have "length copts = length (take 2 S)" by (rule map_Inr_length)
  then have "length copts \<le> 2" by simp
  then have "take 4 (copts @ [worldOption b, twistOption b]) = copts @ [worldOption b, twistOption b]"
    by simp
  with m nc have "fst (getChoices b) = Inr (copts @ [worldOption b, twistOption b])"
    by (simp add: getChoices_result S_def)
  with eq show ?thesis unfolding S_def by blast
qed

lemma sublist_joinWith: "x \<in> set xs \<Longrightarrow> sublist x (joinWith sep xs)"
proof (induction sep xs rule: joinWith.induct)
  case (1 sep)
  then show ?case by simp
next
  case (2 sep y)
  then show ?case by simp
next
  case (3 sep y z zs)
  show ?case
  proof (cases "x = y")
    case True
    then show ?thesis by simp
  next
    case False
    with 3 have "sublist x (joinWith sep (z # zs))" by simp
    then obtain p s where "joinWith sep (z # zs) = p @ x @ s" by (auto simp: sublist_def)
    then have "joinWith sep (y # z # zs) = (y @ sep @ p) @ x @ s" by simp
    then show ?thesis unfolding sublist_def by blast
  qed
qed

lemma sublist_epilogue:
  assumes ge: "generateEpilogue b = Inr ep" and c: "c \<in> set (characters b)"
  shows "\<exists>st. currentStage c = Some st
       \<and> sublist (name c @ '' resolves within '' @ title st @ '', ''
                    @ toLowerCase (summary st) @ ''.'') ep"
proof -
  from ge obtain closures where m: "mapThrow arcClosure (characters b) = Inr closures"
    and ep: "ep = [CHR 0x0A] @ ''Epilogue '' @ [CHR 0xE2, CHR 0x80, CHR 0x94]
                 @ '' The living book settles. '' @ joinWith '' '' closures
                 @ '' Together they prove that '' @ toLowerCase (theme b)
                 @ '' can carry a city beyond the storm.''"
    by (auto simp: generateEpilogue_def split: sum.splits)
  from m have eq: "map arcClosure (characters b) = map Inr closures"
    by (simp add: mapThrow_Inr_iff)
  from c have "arcClosure c \<in> set (map arcClosure (characters b))" by simp
  then have "arcClosure c \<in> Inr ` set closures" unfolding eq by simp
  then obtain s where s: "arcClosure c = Inr s" and sin: "s \<in> set closures" by auto
  from s obtain st where st: "currentStage c = Some st"
    and sdef: "s = name c @ '' resolves within '' @ title st @ '', ''
                    @ toLowerCase (summary st) @ ''.''"
    by (auto simp: arcClosure_def split: option.splits)
  from sin have "sublist s (joinWith '' '' closures)" by (rule sublist_joinWith)
  then obtain p q where "joinWith '' '' closures = p @ s @ q" by (auto simp: sublist_def)
  then have "ep = ([CHR 0x0A] @ ''Epilogue '' @ [CHR 0xE2, CHR 0x80, CHR 0x94]
                 @ '' The living book settles. '' @ p) @ s
                 @ (q @ '' Together they prove that '' @ toLowerCase (theme b)
                 @ '' can carry a city beyond the storm.'')"
    unfolding ep by simp
  then have "sublist s ep" unfolding sublist_def by blast
  with st sdef show ?thesis by blast
qed

lemma generateEpilogue_nonempty: "generateEpilogue b = Inr ep \<Longrightarrow> ep \<noteq> []"
  by (auto simp: generateEpilogue_def split: sum.splits)

section \<open>Concrete engines\<close>

lemmas engine_defs =
  LiveBook_new_def Character_new_def slugify_def trimDashes_def toLowerCase_def toLowerChar_def
  isSlugChar_def generatePassage_def paragraphsFor_def generateWorldPassage_def
  generateTwistPassage_def generateCharacterPassage_def findCharacterByChoice_def
  advanceStructure_def generateEpilogue_def arcClosure_def currentStage_def advanceArc_def
  act_def ACTS_def randomChoice_def interpolate_def startsWith_def hesitation_def
  alreadyFinished_def sensations_def catalysts_def reflections_def accepted_def
  noDraw_def worldChoice_def twistChoice_def bogusChoice_def boChoice_def nobodyChoice_def miraChoice_def
  threeCalls_def hollowCalls_def Let_def

text \<open>The solo engine, call by call.\<close>

lemma solo_new:
  "LiveBook_new soloConfig =
     \<lparr>book_title = ''Solo'', theme = ''Hope'', setting = ''Ys'', mood = ''calm'',
      maxChaptersPerAct = 1,
      characters =
        [\<lparr>name = ''Ada'', role = ''a pilot'', desire = ''fly'', fear = ''falling'',
          secret = ''none'',
          arc = [\<lparr>title = ''Dawn'', summary = ''She Wakes''\<rparr>,
                 \<lparr>title = ''Dusk'', summary = ''She Rests''\<rparr>],
          stageIndex = 0, charId = ''ada''\<rparr>],
      actIndex = 0, chapter = 1, history = [], completed = False, epilogue = []\<rparr>"
  by (simp add: engine_defs soloConfig_def)

lemma solo_bogus:
  "generatePassage (LiveBook_new soloConfig) bogusChoice noDraw =
     (Inr ''The narrative hesitates, unsure of the requested path.'',
      (LiveBook_new soloConfig)
        \<lparr>actIndex := 1,
         history := [\<lparr>rec_act = 1, rec_actName = ''Setup'', rec_chapter = 1,
                      rec_choice = ''Bogus'',
                      rec_text = ''The narrative hesitates, unsure of the requested path.''\<rparr>]\<rparr>)"
  unfolding solo_new by (simp add: engine_defs)

lemma solo_two:
  "runCalls (LiveBook_new soloConfig) [(bogusChoice, noDraw), (bogusChoice, noDraw)] =
     (LiveBook_new soloConfig)
        \<lparr>actIndex := 2,
         history := [\<lparr>rec_act = 1, rec_actName = ''Setup'', rec_chapter = 1,
                      rec_choice = ''Bogus'',
                      rec_text = ''The narrative hesitates, unsure of the requested path.''\<rparr>,
                    \<lparr>rec_act = 2, rec_actName = ''Confrontation'', rec_chapter = 1,
                      rec_choice = ''Bogus'',
                      rec_text = ''The narrative hesitates, unsure of the requested path.''\<rparr>]\<rparr>"
  unfolding solo_new by (simp add: engine_defs)

lemma solo_three:
  "runCalls (LiveBook_new soloConfig) threeCalls =
     (LiveBook_new soloConfig)
        \<lparr>actIndex := 2,
         history := [\<lparr>rec_act = 1, rec_actName = ''Setup'', rec_chapter = 1,
                      rec_choice = ''Bogus'',
                      rec_text = ''The narrative hesitates, unsure of the requested path.''\<rparr>,
                    \<lparr>rec_act = 2, rec_actName = ''Confrontation'', rec_chapter = 1,
                      rec_choice = ''Bogus'',
                      rec_text = ''The narrative hesitates, unsure of the requested path.''\<rparr>,
                    \<lparr>rec_act = 3, rec_actName = ''Resolution'', rec_chapter = 1,
                      rec_choice = ''Bogus'',
                      rec_text = ''The narrative hesitates, unsure of the requested path.''\<rparr>],
         completed := True,
         epilogue := [CHR 0x0A] @ ''Epilogue '' @ [CHR 0xE2, CHR 0x80, CHR 0x94]
            @ '' The living book settles. Ada resolves within Dawn, she wakes. Together they prove that hope can carry a city beyond the storm.''\<rparr>"
  unfolding solo_new by (simp add: engine_defs)

lemma solo_accepted_three: "acceptedCalls (LiveBook_new soloConfig) threeCalls = 3"
  unfolding solo_new by (simp add: engine_defs)

lemma solo_arcsNonEmpty: "arcsNonEmpty soloConfig"
  by (simp add: arcsNonEmpty_def soloConfig_def)

text \<open>The hollow engine: its one character has no stage.\<close>

lemma hollow_new:
  "LiveBook_new hollowConfig =
     \<lparr>book_title = ''Hollow'', theme = ''Hope'', setting = ''Ys'', mood = ''calm'',
      maxChaptersPerAct = 1,
      characters =
        [\<lparr>name = ''Bo'', role = ''a ghost'', desire = ''rest'', fear = ''light'',
          secret = ''none'', arc = [], stageIndex = 0, charId = ''bo''\<rparr>],
      actIndex = 0, chapter = 1, history = [], completed = False, epilogue = []\<rparr>"
  by (simp add: engine_defs hollowConfig_def)

lemma hollow_bo:
  "generatePassage (LiveBook_new hollowConfig) boChoice noDraw =
     (Inl TypeError, LiveBook_new hollowConfig)"
  unfolding hollow_new by (simp add: engine_defs)

lemma hollow_bogus:
  "fst (generatePassage (LiveBook_new hollowConfig) bogusChoice noDraw) =
     Inr ''The narrative hesitates, unsure of the requested path.''"
  unfolding hollow_new by (simp add: engine_defs)

lemma hollow_two:
  "runCalls (LiveBook_new hollowConfig) [(bogusChoice, noDraw), (bogusChoice, noDraw)] =
     (LiveBook_new hollowConfig)
        \<lparr>actIndex := 2,
         history := [\<lparr>rec_act = 1, rec_actName = ''Setup'', rec_chapter = 1,
                      rec_choice = ''Bogus'',
                      rec_text = ''The narrative hesitates, unsure of the requested path.''\<rparr>,
                    \<lparr>rec_act = 2, rec_actName = ''Confrontation'', rec_chapter = 1,
                      rec_choice = ''Bogus'',
                      rec_text = ''The narrative hesitates, unsure of the requested path.''\<rparr>]\<rparr>"
  unfolding hollow_new by (simp add: engine_defs)

lemma hollow_three:
  "runCalls (LiveBook_new hollowConfig) threeCalls =
     (LiveBook_new hollowConfig)
        \<lparr>actIndex := 2,
         history := [\<lparr>rec_act = 1, rec_actName = ''Setup'', rec_chapter = 1,
                      rec_choice = ''Bogus'',
                      rec_text = ''The narrative hesitates, unsure of the requested path.''\<rparr>,
                    \<lparr>rec_act = 2, rec_actName = ''Confrontation'', rec_chapter = 1,
                      rec_choice = ''Bogus'',
                      rec_text = ''The narrative hesitates, unsure of the requested path.''\<rparr>,
                    \<lparr>rec_act = 3, rec_actName = ''Resolution'', rec_chapter = 1,
                      rec_choice = ''Bogus'',
                      rec_text = ''The narrative hesitates, unsure of the requested path.''\<rparr>],
         completed := True\<rparr>"
  unfolding hollow_new by (simp add: engine_defs)

lemma hollow_accepted_three: "acceptedCalls (LiveBook_new hollowConfig) threeCalls = 2"
  unfolding hollow_new by (simp add: engine_defs)

lemma hollow_last_call_throws:
  "fst (generatePassage
          (runCalls (LiveBook_new hollowConfig) [(bogusChoice, noDraw), (bogusChoice, noDraw)])
          bogusChoice noDraw) = Inl TypeError"
  unfolding hollow_two hollow_new by (simp add: engine_defs)

section \<open>Further lemmas\<close>

lemma names_paragraphsFor:
  "map name (characters (snd (paragraphsFor b ch rnd))) = map name (characters b)"
proof -
  obtain cs where cs: "snd (paragraphsFor b ch rnd) = b\<lparr>characters := cs\<rparr>"
    and len: "length cs = length (characters b)"
    and el: "\<forall>i < length cs. name (cs ! i) = name (characters b ! i)
             \<and> arc (cs ! i) = arc (characters b ! i)
             \<and> charId (cs ! i) = charId (characters b ! i)
             \<and> stageIndex (characters b ! i) \<le> stageIndex (cs ! i)"
    using paragraphsFor_state [of b ch rnd] by blast
  have "map name cs = map name (characters b)"
    using len el by (simp add: list_eq_iff_nth_eq)
  then show ?thesis by (simp add: cs)
qed

lemma names_generatePassage:
  "map name (characters (snd (generatePassage b ch rnd))) = map name (characters b)"
proof (cases "completed b")
  case True
  then show ?thesis by (simp add: generatePassage_completed)
next
  case False
  from generatePassage_step [OF False, of ch rnd] show ?thesis
  proof
    assume "generatePassage b ch rnd = (Inl TypeError, b)"
    then show ?thesis by simp
  next
    assume "\<exists>ps. act b \<noteq> None \<and> fst (paragraphsFor b ch rnd) = Inr ps"
    then obtain ps where a: "act b \<noteq> None" and pf: "fst (paragraphsFor b ch rnd) = Inr ps"
      by blast
    show ?thesis
      unfolding generatePassage_recorded_fields(5) [OF False a pf refl refl]
      by (rule names_paragraphsFor)
  qed
qed

lemma names_runCalls: "map name (characters (runCalls b cs)) = map name (characters b)"
  by (induction cs arbitrary: b) (simp_all add: names_generatePassage)

lemma randomChoice_single:
  assumes "0 \<le> r" and "r < 1"
  shows "randomChoice r [x] = Some x"
proof -
  from assms have "\<lfloor>r\<rfloor> = 0" by linarith
  then show ?thesis by (simp add: randomChoice_def)
qed

lemma randomChoice_empty: "randomChoice r [] = None"
  by (simp add: randomChoice_def)

lemma default_new:
  "LiveBook_new defaultConfig =
     \<lparr>book_title = cfg_title defaultConfig, theme = cfg_theme defaultConfig,
      setting = cfg_setting defaultConfig, mood = cfg_mood defaultConfig,
      maxChaptersPerAct = 3,
      characters =
        [Character_new (cfg_characters defaultConfig ! 0),
         Character_new (cfg_characters defaultConfig ! 1),
         Character_new (cfg_characters defaultConfig ! 2)],
      actIndex = 0, chapter = 1, history = [], completed = False, epilogue = []\<rparr>"
  by (simp add: LiveBook_new_def defaultConfig_def)

lemma default_ids:
  "map charId (characters (LiveBook_new defaultConfig)) =
     [''mira-solace'', ''jonas-vale'', ''eira-quell'']"
  by (simp add: LiveBook_new_def defaultConfig_def Character_new_def slugify_def trimDashes_def
      toLowerCase_def toLowerChar_def isSlugChar_def)

lemma findIndex_map: "findIndex (\<lambda>c. f c = v) xs = findIndex (\<lambda>w. w = v) (map f xs)"
  by (induction xs) simp_all

lemma default_find_nobody:
  "findCharacterByChoice (LiveBook_new defaultConfig) (choiceId nobodyChoice) = None"
  unfolding findCharacterByChoice_def findIndex_map [of charId] default_ids
  by (simp add: nobodyChoice_def)

lemma default_find_mira:
  "findCharacterByChoice (LiveBook_new defaultConfig) (choiceId miraChoice) = Some 0"
  unfolding findCharacterByChoice_def findIndex_map [of charId] default_ids
  by (simp add: miraChoice_def)

lemma default_after_mira:
  shows "characters (snd (generatePassage (LiveBook_new defaultConfig) miraChoice noDraw)) =
     [(Character_new (cfg_characters defaultConfig ! 0))\<lparr>stageIndex := 1\<rparr>,
      Character_new (cfg_characters defaultConfig ! 1),
      Character_new (cfg_characters defaultConfig ! 2)]"
    and "\<not> completed (snd (generatePassage (LiveBook_new defaultConfig) miraChoice noDraw))"
proof -
  define b0 where "b0 = LiveBook_new defaultConfig"
  have nc: "\<not> completed b0" by (simp add: b0_def LiveBook_new_def)
  have a: "act b0 \<noteq> None" by (simp add: b0_def LiveBook_new_def act_def)
  have ids: "choiceId miraChoice \<noteq> ''world'' \<and> choiceId miraChoice \<noteq> ''twist''
      \<and> startsWith (choiceId miraChoice) ''character:''"
    by (simp add: miraChoice_def startsWith_def)
  have arc0: "arc (characters b0 ! 0) = arc (cfg_characters defaultConfig ! 0)"
    "stageIndex (characters b0 ! 0) = 0"
    by (simp_all add: b0_def default_new Character_new_def)
  have len: "length (arc (cfg_characters defaultConfig ! 0)) = 3"
    by (simp add: defaultConfig_def)
  have adv: "advanceArc (characters b0 ! 0) = (True, (characters b0 ! 0)\<lparr>stageIndex := 1\<rparr>)"
    by (simp add: advanceArc_def arc0 len)
  have pf: "paragraphsFor b0 miraChoice noDraw =
      generateCharacterPassage b0 (Some 0) noDraw"
    using ids default_find_mira by (simp add: paragraphsFor_def b0_def)
  have st: "snd (paragraphsFor b0 miraChoice noDraw) =
      b0\<lparr>characters := (characters b0)[0 := (characters b0 ! 0)\<lparr>stageIndex := 1\<rparr>]\<rparr>"
    unfolding pf generateCharacterPassage_state by (simp add: adv)
  have "\<not> isl (fst (paragraphsFor b0 miraChoice noDraw))"
    unfolding pf generateCharacterPassage_def
    using a by (auto simp: Let_def adv currentStage_def arc0 len split: prod.splits)
  then obtain ps where ps: "fst (paragraphsFor b0 miraChoice noDraw) = Inr ps"
    by (cases "fst (paragraphsFor b0 miraChoice noDraw)") auto
  note f = generatePassage_recorded_fields [OF nc a ps refl refl]
  have "characters (snd (generatePassage b0 miraChoice noDraw)) =
      (characters b0)[0 := (characters b0 ! 0)\<lparr>stageIndex := 1\<rparr>]"
    unfolding f(5) st by simp
  then show "characters (snd (generatePassage (LiveBook_new defaultConfig) miraChoice noDraw)) =
     [(Character_new (cfg_characters defaultConfig ! 0))\<lparr>stageIndex := 1\<rparr>,
      Character_new (cfg_characters defaultConfig ! 1),
      Character_new (cfg_characters defaultConfig ! 2)]"
    unfolding b0_def default_new by simp
  have "completed (snd (generatePassage b0 miraChoice noDraw))
      = completed (turnPage b0 (characters (snd (paragraphsFor b0 miraChoice noDraw)))
           (passageRecord b0 miraChoice ps))"
    by (rule f(3))
  also have "\<dots> = False"
    using turnPage_transition [OF nc, of "characters (snd (paragraphsFor b0 miraChoice noDraw))"
        "passageRecord b0 miraChoice ps"]
    by (simp add: b0_def default_new)
  finally show "\<not> completed (snd (generatePassage (LiveBook_new defaultConfig) miraChoice noDraw))"
    by (simp add: b0_def)
qed

text \<open>
  Outside the admitted configurations: the one character of the hollow engine has an empty
  arc. A call naming that character ends in an exception and records nothing, and the call
  that completes the book records its passage, sets the completed flag and then ends in an
  exception while the epilogue is assembled. So four calls, none of them answered by the
  sentinel and two of them returning a passage, leave three history entries, and the twist
  call that completes that book throws.
\<close>

lemma hollow_history_outruns_accepted:
  "\<not> completed (LiveBook_new hollowConfig)
   \<and> \<not> completed (runCalls (LiveBook_new hollowConfig) (take 3 hollowCalls))
   \<and> length hollowCalls = 4
   \<and> acceptedCalls (LiveBook_new hollowConfig) hollowCalls = 2
   \<and> length (history (runCalls (LiveBook_new hollowConfig) hollowCalls)) = 3"
proof -
  have r: "runCalls (LiveBook_new hollowConfig) hollowCalls
         = runCalls (LiveBook_new hollowConfig) threeCalls"
    by (simp add: hollowCalls_def hollow_bo)
  have t: "runCalls (LiveBook_new hollowConfig) (take 3 hollowCalls)
         = runCalls (LiveBook_new hollowConfig) [(bogusChoice, noDraw), (bogusChoice, noDraw)]"
    by (simp add: hollowCalls_def threeCalls_def hollow_bo)
  have a: "acceptedCalls (LiveBook_new hollowConfig) hollowCalls = 2"
    using hollow_accepted_three by (simp add: hollowCalls_def hollow_bo accepted_def)
  have l: "length hollowCalls = 4" by (simp add: hollowCalls_def threeCalls_def)
  show ?thesis
    unfolding r t hollow_three hollow_two a l by (simp add: hollow_new)
qed

lemma hollow_twist_throws:
  "length (characters (runCalls (LiveBook_new hollowConfig) (take 2 threeCalls))) = 1
   \<and> \<not> completed (runCalls (LiveBook_new hollowConfig) (take 2 threeCalls))
   \<and> fst (generatePassage (runCalls (LiveBook_new hollowConfig) (take 2 threeCalls))
             twistChoice noDraw) = Inl TypeError"
proof -
  have t: "runCalls (LiveBook_new hollowConfig) (take 2 threeCalls)
         = runCalls (LiveBook_new hollowConfig) [(bogusChoice, noDraw), (bogusChoice, noDraw)]"
    by (simp add: threeCalls_def)
  have "fst (generatePassage
          (runCalls (LiveBook_new hollowConfig) [(bogusChoice, noDraw), (bogusChoice, noDraw)])
          twistChoice noDraw) = Inl TypeError"
    unfolding hollow_two hollow_new by (simp add: engine_defs)
  then show ?thesis unfolding t hollow_two by (simp add: hollow_new)
qed

text \<open>The two ways of a choice that names no known category.\<close>

lemma unknown_slug_throws:
  assumes "\<not> completed b"
      and "choiceId ch \<noteq> ''world''" and "choiceId ch \<noteq> ''twist''"
      and "startsWith (choiceId ch) ''character:''"
      and "findCharacterByChoice b (choiceId ch) = None"
  shows "generatePassage b ch rnd = (Inl TypeError, b)"
proof -
  have "paragraphsFor b ch rnd = (Inl TypeError, b)"
    using assms(2-5) by (simp add: paragraphsFor_def generateCharacterPassage_def)
  then show ?thesis by (intro generatePassage_throws_early [OF assms(1)]) simp
qed

lemma unrecognised_choice_hesitates:
  assumes ok: "charsOk b" and nc: "\<not> completed b" and a: "act b \<noteq> None"
      and ids: "choiceId ch \<noteq> ''world''" "choiceId ch \<noteq> ''twist''"
               "\<not> startsWith (choiceId ch) ''character:''"
  shows "fst (generatePassage b ch rnd) = Inr hesitation"
    and "history (snd (generatePassage b ch rnd)) = history b @ [passageRecord b ch [hesitation]]"
    and "characters (snd (generatePassage b ch rnd)) = characters b"
proof -
  have pf: "paragraphsFor b ch rnd = (Inr [hesitation], b)"
    using ids by (simp add: paragraphsFor_def)
  then have acc: "accepted b (ch, rnd)"
    using accepted_iff [OF ok nc, of "(ch, rnd)"] a by simp
  show "fst (generatePassage b ch rnd) = Inr hesitation"
    using accepted_history(2) [OF ok acc] pf by simp
  show "history (snd (generatePassage b ch rnd)) = history b @ [passageRecord b ch [hesitation]]"
    using accepted_history(1) [OF ok acc] pf by simp
  have "fst (paragraphsFor b ch rnd) = Inr [hesitation]" using pf by simp
  from generatePassage_recorded_fields(5) [OF nc a this refl refl] pf
  show "characters (snd (generatePassage b ch rnd)) = characters b" by simp
qed

text \<open>The default engine and the id that names nobody.\<close>

lemma default_nobody_throws:
  "generatePassage (LiveBook_new defaultConfig) nobodyChoice rnd =
     (Inl TypeError, LiveBook_new defaultConfig)"
proof -
  have nc: "\<not> completed (LiveBook_new defaultConfig)" by (simp add: LiveBook_new_def)
  show ?thesis
    by (rule unknown_slug_throws [OF nc _ _ _ default_find_nobody])
       (simp_all add: nobodyChoice_def startsWith_def)
qed

text \<open>A request for the world is accepted by every engine in operation.\<close>

lemma world_request_is_accepted:
  assumes wf: "arcsNonEmpty config"
      and nc: "\<not> completed (runCalls (LiveBook_new config) calls)"
      and world: "choiceId choice = ''world''"
  shows "accepted (runCalls (LiveBook_new config) calls) (choice, rnd)"
proof -
  define b where "b = runCalls (LiveBook_new config) calls"
  have ok: "charsOk b" unfolding b_def by (rule charsOk_runCalls) (rule charsOk_new [OF wf])
  have "act b \<noteq> None" unfolding b_def by (rule act_reachable)
  then obtain a where a: "act b = Some a" by blast
  have pf: "paragraphsFor b choice rnd = (generateWorldPassage b rnd, b)"
    using world by (simp add: paragraphsFor_def)
  have "\<not> isl (generateWorldPassage b rnd)"
    by (simp add: generateWorldPassage_def a)
  with accepted_iff [OF ok nc [folded b_def], of "(choice, rnd)"] a pf
  show ?thesis unfolding b_def by simp
qed

text \<open>
  What one call does to the structure. On an engine that is not completed a call either
  ends in an exception before anything is recorded and leaves the engine as it was, or it
  records its passage as one new history entry and then takes exactly one transition: the
  chapter is incremented in the same act, or the next act starts at chapter 1, or, in the
  last chapter of the last act, the completed flag is set. Over any sequence of calls on a
  constructed engine the transition into the completed state is taken once if the engine
  ends completed and never otherwise.
\<close>

lemma recorded_passage_takes_one_transition:
  "(\<not> completed b \<and> generatePassage b choice rnd = (res, b') \<longrightarrow>
      (res = Inl TypeError \<and> b' = b)
    \<or> ((\<exists>r. history b' = history b @ [r])
       \<and> (if chapter b < maxChaptersPerAct b
          then actIndex b' = actIndex b \<and> chapter b' = chapter b + 1 \<and> \<not> completed b'
          else if actIndex b < 2
          then actIndex b' = actIndex b + 1 \<and> chapter b' = 1 \<and> \<not> completed b'
          else actIndex b' = actIndex b \<and> chapter b' = chapter b \<and> completed b')))
   \<and> terminalTransitions (LiveBook_new config) calls =
       (if completed (runCalls (LiveBook_new config) calls) then 1 else 0)"
proof (intro conjI impI)
  assume h: "\<not> completed b \<and> generatePassage b choice rnd = (res, b')"
  then have nc: "\<not> completed b" and gp: "generatePassage b choice rnd = (res, b')" by simp_all
  show "(res = Inl TypeError \<and> b' = b)
    \<or> ((\<exists>r. history b' = history b @ [r])
       \<and> (if chapter b < maxChaptersPerAct b
          then actIndex b' = actIndex b \<and> chapter b' = chapter b + 1 \<and> \<not> completed b'
          else if actIndex b < 2
          then actIndex b' = actIndex b + 1 \<and> chapter b' = 1 \<and> \<not> completed b'
          else actIndex b' = actIndex b \<and> chapter b' = chapter b \<and> completed b'))"
  proof (cases "act b = None \<or> isl (fst (paragraphsFor b choice rnd))")
    case True
    from generatePassage_throws_early [OF nc True] gp show ?thesis by simp
  next
    case False
    then have a: "act b \<noteq> None" by simp
    from False obtain ps where pf: "fst (paragraphsFor b choice rnd) = Inr ps"
      by (cases "fst (paragraphsFor b choice rnd)") auto
    define b3 where
      "b3 = turnPage b (characters (snd (paragraphsFor b choice rnd))) (passageRecord b choice ps)"
    have b': "b' = snd (generatePassage b choice rnd)" using gp by simp
    note f = generatePassage_recorded_fields [OF nc a pf b3_def b']
    have "\<exists>r. history b' = history b @ [r]" by (simp add: f(4))
    moreover have "if chapter b < maxChaptersPerAct b
          then actIndex b' = actIndex b \<and> chapter b' = chapter b + 1 \<and> \<not> completed b'
          else if actIndex b < 2
          then actIndex b' = actIndex b + 1 \<and> chapter b' = 1 \<and> \<not> completed b'
          else actIndex b' = actIndex b \<and> chapter b' = chapter b \<and> completed b'"
      using turnPage_transition [OF nc, of "characters (snd (paragraphsFor b choice rnd))"
          "passageRecord b choice ps"]
      unfolding f(1,2,3) b3_def by simp
    ultimately show ?thesis by blast
  qed
next
  show "terminalTransitions (LiveBook_new config) calls =
       (if completed (runCalls (LiveBook_new config) calls) then 1 else 0)"
    by (simp add: terminalTransitions_count) (simp add: LiveBook_new_def)
qed

lemma solo_transition_example:
  "\<not> completed (LiveBook_new soloConfig)
   \<and> length (history (snd (generatePassage (LiveBook_new soloConfig) bogusChoice noDraw))) = 1
   \<and> actIndex (snd (generatePassage (LiveBook_new soloConfig) bogusChoice noDraw)) = 1
   \<and> chapter (snd (generatePassage (LiveBook_new soloConfig) bogusChoice noDraw)) = 1
   \<and> terminalTransitions (LiveBook_new soloConfig) [(bogusChoice, noDraw)] = 0"
  using recorded_passage_takes_one_transition
    [of "LiveBook_new soloConfig" bogusChoice noDraw
        "fst (generatePassage (LiveBook_new soloConfig) bogusChoice noDraw)"
        "snd (generatePassage (LiveBook_new soloConfig) bogusChoice noDraw)"
        soloConfig "[(bogusChoice, noDraw)]"]
  by (simp add: solo_bogus) (simp add: solo_new)

text \<open>
  The history as the log of the calls that return a passage. For an engine constructed from
  a configuration whose arcs all have a stage and for any sequence of calls, the history is
  the list of the entries of the accepted calls in call order, each made of the 1-based act
  number, the act name and the chapter in effect at the request, the label of the choice
  and the paragraphs joined by a blank line. A further accepted call returns that joined
  text and appends its entry; any other call leaves the engine as it is.
\<close>

lemma history_logs_returned_passages:
  assumes "arcsNonEmpty config"
  shows "let b0 = LiveBook_new config; b = runCalls b0 calls in
           length (history b) = acceptedCalls b0 calls
         \<and> history b = expectedHistory b0 calls
         \<and> (\<forall>c. accepted b c \<longrightarrow>
               fst (generatePassage b (fst c) (snd c)) =
                 Inr (joinWith [CHR 0x0A, CHR 0x0A]
                        (projr (fst (paragraphsFor b (fst c) (snd c)))))
             \<and> history (snd (generatePassage b (fst c) (snd c))) =
                 history b @
                   [\<lparr>rec_act = actIndex b + 1, rec_actName = act_name (ACTS ! actIndex b),
                     rec_chapter = chapter b, rec_choice = label (fst c),
                     rec_text = joinWith [CHR 0x0A, CHR 0x0A]
                        (projr (fst (paragraphsFor b (fst c) (snd c))))\<rparr>])
         \<and> (\<forall>c. \<not> accepted b c \<longrightarrow> snd (generatePassage b (fst c) (snd c)) = b)"
proof -
  define b0 where "b0 = LiveBook_new config"
  define b where "b = runCalls b0 calls"
  have ok0: "charsOk b0" unfolding b0_def by (rule charsOk_new [OF assms])
  then have ok: "charsOk b" unfolding b_def by (rule charsOk_runCalls)
  have h: "history b = expectedHistory b0 calls"
    using history_runCalls [OF ok0, of calls] by (simp add: b_def b0_def LiveBook_new_def)
  then have l: "length (history b) = acceptedCalls b0 calls"
    by (simp add: length_expectedHistory)
  have a: "\<forall>c. accepted b c \<longrightarrow>
               fst (generatePassage b (fst c) (snd c)) =
                 Inr (joinWith [CHR 0x0A, CHR 0x0A]
                        (projr (fst (paragraphsFor b (fst c) (snd c)))))
             \<and> history (snd (generatePassage b (fst c) (snd c))) =
                 history b @
                   [\<lparr>rec_act = actIndex b + 1, rec_actName = act_name (ACTS ! actIndex b),
                     rec_chapter = chapter b, rec_choice = label (fst c),
                     rec_text = joinWith [CHR 0x0A, CHR 0x0A]
                        (projr (fst (paragraphsFor b (fst c) (snd c))))\<rparr>]"
    using accepted_history [OF ok] by (simp add: passageRecord_def)
  have n: "\<forall>c. \<not> accepted b c \<longrightarrow> snd (generatePassage b (fst c) (snd c)) = b"
    using not_accepted_unchanged [OF ok] by blast
  from l h a n show ?thesis unfolding Let_def b0_def [symmetric] b_def [symmetric] by blast
qed

lemma solo_history_example:
  "arcsNonEmpty soloConfig
   \<and> acceptedCalls (LiveBook_new soloConfig) threeCalls = 3
   \<and> length (history (runCalls (LiveBook_new soloConfig) threeCalls)) = 3
   \<and> map rec_act (expectedHistory (LiveBook_new soloConfig) threeCalls) = [1, 2, 3]
   \<and> map rec_actName (expectedHistory (LiveBook_new soloConfig) threeCalls) =
        [''Setup'', ''Confrontation'', ''Resolution'']"
proof -
  note t = history_logs_returned_passages
      [OF solo_arcsNonEmpty, of threeCalls, unfolded Let_def]
  have l: "length (history (runCalls (LiveBook_new soloConfig) threeCalls)) =
      acceptedCalls (LiveBook_new soloConfig) threeCalls"
    by (rule t [THEN conjunct1])
  have h: "history (runCalls (LiveBook_new soloConfig) threeCalls) =
      expectedHistory (LiveBook_new soloConfig) threeCalls"
    by (rule t [THEN conjunct2, THEN conjunct1])
  have 3: "length (history (runCalls (LiveBook_new soloConfig) threeCalls)) = 3"
    unfolding l by (rule solo_accepted_three)
  have 4: "map rec_act (expectedHistory (LiveBook_new soloConfig) threeCalls) = [1, 2, 3]"
    unfolding h [symmetric] solo_three by simp
  have 5: "map rec_actName (expectedHistory (LiveBook_new soloConfig) threeCalls) =
        [''Setup'', ''Confrontation'', ''Resolution'']"
    unfolding h [symmetric] solo_three by simp
  from solo_arcsNonEmpty solo_accepted_three 3 4 5 show ?thesis by blast
qed

section \<open>The claims\<close>

text \<open>
  The specification admits the configurations in which every arc has at least one stage and
  declares the behaviour of an engine built from any other configuration undefined. The
  theorems about engines in operation assume \<open>arcsNonEmpty\<close> of the configuration where
  they need it; what the constructor does with the other configurations is the subject of
  C8. In the theorems that count accepted calls, a call of \<open>generatePassage\<close> counts as
  accepted when it is made on an engine that is not completed and returns its passage.
\<close>

text \<open>
  C1. The claim covers every call that completion does not reject. On the engine of the
  default story, which is not completed and stands at chapter 1 of 3 in the first act, the
  call with the id \<open>character:nobody\<close> is such a call. The claim asks for a recorded passage
  followed by one transition, here to chapter 2. The code throws a \<open>TypeError\<close> where it reads
  the character that \<open>find\<close> did not return: nothing is recorded and no transition is taken,
  the engine stays at act index 0 and chapter 1.
\<close>

theorem C1_unknown_slug_takes_no_transition:
  "\<not> completed (LiveBook_new defaultConfig)
   \<and> actIndex (LiveBook_new defaultConfig) = 0
   \<and> chapter (LiveBook_new defaultConfig) = 1
   \<and> chapter (LiveBook_new defaultConfig) < maxChaptersPerAct (LiveBook_new defaultConfig)
   \<and> fst (generatePassage (LiveBook_new defaultConfig) nobodyChoice rnd) = Inl TypeError
   \<and> history (snd (generatePassage (LiveBook_new defaultConfig) nobodyChoice rnd)) = []
   \<and> actIndex (snd (generatePassage (LiveBook_new defaultConfig) nobodyChoice rnd)) = 0
   \<and> chapter (snd (generatePassage (LiveBook_new defaultConfig) nobodyChoice rnd)) = 1
   \<and> \<not> completed (snd (generatePassage (LiveBook_new defaultConfig) nobodyChoice rnd))"
  unfolding default_nobody_throws by (simp add: LiveBook_new_def defaultConfig_def)

text \<open>
  C2. The claim as stated fails: the epilogue holds every summary in lower case, so a
  summary written with a capital is not contained in it. Here the solo engine has taken its
  \<open>3 \<times> 1\<close> accepted requests and is complete, Ada's final stage is Dawn with the summary
  "She Wakes", and the epilogue does not contain "She Wakes" (it reads "she wakes").
\<close>

theorem C2_counterexample:
  "cfg_maxChaptersPerAct soloConfig = Some 1
   \<and> acceptedCalls (LiveBook_new soloConfig) threeCalls = 3
   \<and> isComplete (runCalls (LiveBook_new soloConfig) threeCalls)
   \<and> map currentStage (characters (runCalls (LiveBook_new soloConfig) threeCalls)) =
        [Some \<lparr>title = ''Dawn'', summary = ''She Wakes''\<rparr>]
   \<and> \<not> sublist ''She Wakes'' (epilogue (runCalls (LiveBook_new soloConfig) threeCalls))"
proof -
  have 1: "cfg_maxChaptersPerAct soloConfig = Some 1" by (simp add: soloConfig_def)
  have 3: "isComplete (runCalls (LiveBook_new soloConfig) threeCalls)"
    unfolding isComplete_def solo_three by simp
  have 4: "map currentStage (characters (runCalls (LiveBook_new soloConfig) threeCalls)) =
        [Some \<lparr>title = ''Dawn'', summary = ''She Wakes''\<rparr>]"
    unfolding solo_three by (simp add: solo_new currentStage_def)
  have 5: "\<not> sublist ''She Wakes'' (epilogue (runCalls (LiveBook_new soloConfig) threeCalls))"
  proof
    assume "sublist ''She Wakes'' (epilogue (runCalls (LiveBook_new soloConfig) threeCalls))"
    then have "set ''She Wakes'' \<subseteq> set (epilogue (runCalls (LiveBook_new soloConfig) threeCalls))"
      by (rule set_mono_sublist)
    then have "CHR ''S'' \<in> set (epilogue (runCalls (LiveBook_new soloConfig) threeCalls))"
      by auto
    then show False unfolding solo_three by simp
  qed
  from 1 solo_accepted_three 3 4 5 show ?thesis by blast
qed

text \<open>
  C2, amended. For an engine constructed from a configuration whose arcs all have a stage
  and whose chapter limit \<open>n\<close> is positive, and for any sequence of calls: the number \<open>k\<close> of
  accepted requests never exceeds \<open>3 \<times> n\<close>; \<open>isComplete()\<close> holds exactly when \<open>k = 3 \<times> n\<close>; while
  \<open>k < 3 \<times> n\<close> the epilogue is the empty string; when \<open>k = 3 \<times> n\<close> the epilogue is a non-empty
  string, it is what \<open>_generateEpilogue\<close> yields on the final state, and for every character of
  the roster it contains the sentence made of the character's name, the title of the
  character's current (final) stage and the summary of that stage in lower case. The
  epilogue is assigned by the one call that takes the engine into the completed state, and
  no later call changes the engine.
\<close>

theorem C2_completion_and_epilogue:
  assumes "arcsNonEmpty config" and "0 < maxChaptersPerAct (LiveBook_new config)"
  shows "let b0 = LiveBook_new config; n = maxChaptersPerAct b0;
             b = runCalls b0 calls; k = int (acceptedCalls b0 calls) in
           k \<le> 3 * n
         \<and> (isComplete b \<longleftrightarrow> k = 3 * n)
         \<and> (k < 3 * n \<longrightarrow> epilogue b = [])
         \<and> (k = 3 * n \<longrightarrow>
               epilogue b \<noteq> [] \<and> generateEpilogue b = Inr (epilogue b)
             \<and> (\<forall>c \<in> set (characters b). \<exists>st. currentStage c = Some st
                   \<and> sublist (name c @ '' resolves within '' @ title st @ '', ''
                                @ toLowerCase (summary st) @ ''.'') (epilogue b)))
         \<and> terminalTransitions b0 calls = (if k = 3 * n then 1 else 0)
         \<and> (isComplete b \<longrightarrow> runCalls b later = b)"
proof -
  define b0 where "b0 = LiveBook_new config"
  define n where "n = maxChaptersPerAct b0"
  define b where "b = runCalls b0 calls"
  define k where "k = int (acceptedCalls b0 calls)"
  have ok0: "charsOk b0" unfolding b0_def by (rule charsOk_new [OF assms(1)])
  have s0: "structureOk b0" unfolding b0_def by (rule structureOk_new [OF assms(2)])
  have nc0: "\<not> completed b0" by (simp add: b0_def LiveBook_new_def)
  note r = structure_runCalls [OF ok0 s0, of calls, folded b_def]
  from r have s: "structureOk b" and m: "maxChaptersPerAct b = n" by (simp_all add: n_def)
  from r have p: "position b = k" by (simp add: k_def b0_def position_new)
  have 1: "k \<le> 3 * n" using position_le [OF s] p m by simp
  have 2: "isComplete b \<longleftrightarrow> k = 3 * n"
    using position_complete [OF s] p m by (simp add: isComplete_def)
  have 3: "k < 3 * n \<longrightarrow> epilogue b = []"
    using 2 s by (auto simp: structureOk_def isComplete_def)
  have 4: "k = 3 * n \<longrightarrow>
               epilogue b \<noteq> [] \<and> generateEpilogue b = Inr (epilogue b)
             \<and> (\<forall>c \<in> set (characters b). \<exists>st. currentStage c = Some st
                   \<and> sublist (name c @ '' resolves within '' @ title st @ '', ''
                                @ toLowerCase (summary st) @ ''.'') (epilogue b))"
  proof
    assume "k = 3 * n"
    with 2 have c: "completed b" by (simp add: isComplete_def)
    with s have ge: "generateEpilogue b = Inr (epilogue b)" by (simp add: structureOk_def)
    from ge have "epilogue b \<noteq> []" by (rule generateEpilogue_nonempty)
    moreover have "\<forall>c \<in> set (characters b). \<exists>st. currentStage c = Some st
                   \<and> sublist (name c @ '' resolves within '' @ title st @ '', ''
                                @ toLowerCase (summary st) @ ''.'') (epilogue b)"
      using sublist_epilogue [OF ge] by blast
    ultimately show "epilogue b \<noteq> [] \<and> generateEpilogue b = Inr (epilogue b)
             \<and> (\<forall>c \<in> set (characters b). \<exists>st. currentStage c = Some st
                   \<and> sublist (name c @ '' resolves within '' @ title st @ '', ''
                                @ toLowerCase (summary st) @ ''.'') (epilogue b))"
      using ge by blast
  qed
  have 5: "terminalTransitions b0 calls = (if k = 3 * n then 1 else 0)"
    using 2 nc0 by (simp add: terminalTransitions_count b_def isComplete_def)
  have 6: "isComplete b \<longrightarrow> runCalls b later = b"
    by (simp add: isComplete_def runCalls_completed)
  from 1 2 3 4 5 6 show ?thesis
    unfolding Let_def b0_def [symmetric] n_def [symmetric] b_def [symmetric] k_def [symmetric]
    by blast
qed

theorem C2_witness:
  "arcsNonEmpty soloConfig \<and> 0 < maxChaptersPerAct (LiveBook_new soloConfig)
   \<and> int (acceptedCalls (LiveBook_new soloConfig) threeCalls)
        = 3 * maxChaptersPerAct (LiveBook_new soloConfig)
   \<and> isComplete (runCalls (LiveBook_new soloConfig) threeCalls)
   \<and> sublist ''Ada resolves within Dawn, she wakes.''
        (epilogue (runCalls (LiveBook_new soloConfig) threeCalls))
   \<and> terminalTransitions (LiveBook_new soloConfig) threeCalls = 1"
proof -
  have pos: "0 < maxChaptersPerAct (LiveBook_new soloConfig)" by (simp add: solo_new)
  have k: "int (acceptedCalls (LiveBook_new soloConfig) threeCalls)
        = 3 * maxChaptersPerAct (LiveBook_new soloConfig)"
    unfolding solo_accepted_three by (simp add: solo_new)
  note t = C2_completion_and_epilogue [OF solo_arcsNonEmpty pos, of threeCalls "[]",
      unfolded Let_def]
  from t k have c: "isComplete (runCalls (LiveBook_new soloConfig) threeCalls)" by simp
  from t k have tt: "terminalTransitions (LiveBook_new soloConfig) threeCalls = 1" by simp
  from t k have "\<forall>c \<in> set (characters (runCalls (LiveBook_new soloConfig) threeCalls)).
      \<exists>st. currentStage c = Some st
        \<and> sublist (name c @ '' resolves within '' @ title st @ '', ''
                     @ toLowerCase (summary st) @ ''.'')
            (epilogue (runCalls (LiveBook_new soloConfig) threeCalls))"
    by simp
  then have "sublist ''Ada resolves within Dawn, she wakes.''
        (epilogue (runCalls (LiveBook_new soloConfig) threeCalls))"
    unfolding solo_three
    by (simp add: solo_new currentStage_def toLowerCase_def toLowerChar_def)
  with solo_arcsNonEmpty pos k c tt show ?thesis by blast
qed

text \<open>
  C3. The claim as stated fails for a roster of fewer than two characters: the solo engine
  is not complete and its menu has three entries, the second of which is the world option.
\<close>

theorem C3_counterexample:
  "\<not> isComplete (LiveBook_new soloConfig)
   \<and> fst (getChoices (LiveBook_new soloConfig)) =
       Inr [\<lparr>choiceId = ''character:ada'', label = ''Follow Ada as they navigate dawn.''\<rparr>,
            \<lparr>choiceId = ''world'', label = ''Listen to the city of Ys reveal a new facet.''\<rparr>,
            \<lparr>choiceId = ''twist'',
              label = ''Complicate the central tension that binds everyone together.''\<rparr>]"
  unfolding solo_new getChoices_result isComplete_def
  by (simp add: characterOption_def currentStage_def worldOption_def twistOption_def
      twistLabel_def toLowerCase_def toLowerChar_def)

text \<open>
  C3, amended. In every state reached from a configuration whose arcs all have a stage,
  \<open>getChoices()\<close> returns a list of at most 4 options, empty exactly when \<open>isComplete()\<close> holds;
  when the engine is not complete the list consists of the character options of the first
  \<open>min 2 (roster size)\<close> characters of the roster sorted by ascending stage index, characters
  of equal stage index keeping their roster order, followed by the world option and the
  twist option in that order. The sorted roster is fixed by three properties: it is a
  permutation of the roster, its stage indices ascend, and for every stage index the
  characters at that index appear in it as they do in the roster.
\<close>

theorem C3_getChoices_menu:
  assumes "arcsNonEmpty config"
  shows "let b = runCalls (LiveBook_new config) calls in
         \<exists>opts. fst (getChoices b) = Inr opts
           \<and> length opts \<le> 4
           \<and> (opts = [] \<longleftrightarrow> isComplete b)
           \<and> (\<not> isComplete b \<longrightarrow>
                (\<exists>sorted_roster copts.
                    mset sorted_roster = mset (characters b)
                  \<and> sorted (map stageIndex sorted_roster)
                  \<and> (\<forall>k. filter (\<lambda>c. stageIndex c = k) sorted_roster
                          = filter (\<lambda>c. stageIndex c = k) (characters b))
                  \<and> map characterOption (take 2 sorted_roster) = map Inr copts
                  \<and> length copts = min 2 (length (characters b))
                  \<and> opts = copts @ [worldOption b, twistOption b]))"
proof -
  define b where "b = runCalls (LiveBook_new config) calls"
  have ok: "charsOk b"
    unfolding b_def by (rule charsOk_runCalls) (rule charsOk_new [OF assms])
  show ?thesis
  proof (cases "completed b")
    case True
    then have "fst (getChoices b) = Inr []" by (simp add: getChoices_result)
    with True show ?thesis
      unfolding Let_def b_def [symmetric] by (simp add: isComplete_def)
  next
    case False
    define S where "S = sort_key stageIndex (characters b)"
    from getChoices_ok [OF ok False] obtain copts
      where m: "map characterOption (take 2 S) = map Inr copts"
        and g: "fst (getChoices b) = Inr (copts @ [worldOption b, twistOption b])"
      unfolding S_def by blast
    have len: "length copts = min 2 (length (characters b))"
      using map_Inr_length [OF m] by (simp add: S_def min_def)
    have p: "mset S = mset (characters b)" by (simp add: S_def)
    have s: "sorted (map stageIndex S)" by (simp add: S_def)
    have st: "\<forall>k. filter (\<lambda>c. stageIndex c = k) S = filter (\<lambda>c. stageIndex c = k) (characters b)"
      by (simp add: S_def sort_key_stable)
    have inner: "\<exists>sorted_roster copts'.
                    mset sorted_roster = mset (characters b)
                  \<and> sorted (map stageIndex sorted_roster)
                  \<and> (\<forall>k. filter (\<lambda>c. stageIndex c = k) sorted_roster
                          = filter (\<lambda>c. stageIndex c = k) (characters b))
                  \<and> map characterOption (take 2 sorted_roster) = map Inr copts'
                  \<and> length copts' = min 2 (length (characters b))
                  \<and> copts @ [worldOption b, twistOption b]
                      = copts' @ [worldOption b, twistOption b]"
      using p s st m len by blast
    have l4: "length (copts @ [worldOption b, twistOption b]) \<le> 4" using len by simp
    from g l4 inner False show ?thesis
      unfolding Let_def b_def [symmetric] by (simp add: isComplete_def)
  qed
qed

theorem C3_witness:
  "arcsNonEmpty defaultConfig
   \<and> (\<exists>opts. fst (getChoices (runCalls (LiveBook_new defaultConfig) [(miraChoice, noDraw)]))
               = Inr opts
          \<and> length opts = 4
          \<and> map choiceId opts =
              [''character:jonas-vale'', ''character:eira-quell'', ''world'', ''twist''])"
proof -
  have wf: "arcsNonEmpty defaultConfig" by (simp add: arcsNonEmpty_def defaultConfig_def)
  define b where "b = runCalls (LiveBook_new defaultConfig) [(miraChoice, noDraw)]"
  have b: "b = snd (generatePassage (LiveBook_new defaultConfig) miraChoice noDraw)"
    by (simp add: b_def)
  have nc: "\<not> isComplete b" unfolding isComplete_def b by (rule default_after_mira(2))
  have cs: "characters b =
     [(Character_new (cfg_characters defaultConfig ! 0))\<lparr>stageIndex := 1\<rparr>,
      Character_new (cfg_characters defaultConfig ! 1),
      Character_new (cfg_characters defaultConfig ! 2)]"
    unfolding b by (rule default_after_mira(1))
  from C3_getChoices_menu [OF wf, of "[(miraChoice, noDraw)]", unfolded Let_def, folded b_def] nc
  obtain opts S copts where g: "fst (getChoices b) = Inr opts"
    and p: "mset S = mset (characters b)"
    and s: "sorted (map stageIndex S)"
    and st: "\<forall>k. filter (\<lambda>c. stageIndex c = k) S = filter (\<lambda>c. stageIndex c = k) (characters b)"
    and m: "map characterOption (take 2 S) = map Inr copts"
    and o: "opts = copts @ [worldOption b, twistOption b]"
    by blast
  have st': "filter (\<lambda>x. j = stageIndex x) S = filter (\<lambda>x. j = stageIndex x) (characters b)"
    for j using st [rule_format, of j] by (simp add: eq_commute [of j])
  have "sort_key stageIndex (characters b) = S"
    using p s st' by (intro properties_for_sort_key) auto
  then have S: "S = [Character_new (cfg_characters defaultConfig ! 1),
      Character_new (cfg_characters defaultConfig ! 2),
      (Character_new (cfg_characters defaultConfig ! 0))\<lparr>stageIndex := 1\<rparr>]"
    by (simp add: cs Character_new_def)
  have ids: "charId (Character_new (cfg_characters defaultConfig ! 1)) = ''jonas-vale''"
    "charId (Character_new (cfg_characters defaultConfig ! 2)) = ''eira-quell''"
    using default_ids by (simp_all add: default_new)
  from m obtain o1 o2 where c2: "copts = [o1, o2]"
    and o1: "characterOption (Character_new (cfg_characters defaultConfig ! 1)) = Inr o1"
    and o2: "characterOption (Character_new (cfg_characters defaultConfig ! 2)) = Inr o2"
    unfolding S by (cases copts; cases "tl copts") auto
  have "choiceId o1 = ''character:jonas-vale''" "choiceId o2 = ''character:eira-quell''"
    using o1 o2 ids by (auto simp: characterOption_def split: option.splits)
  with o c2 have mc: "map choiceId opts =
      [''character:jonas-vale'', ''character:eira-quell'', ''world'', ''twist'']"
    by (simp add: worldOption_def twistOption_def)
  have len: "length opts = 4" using o c2 by simp
  have g': "fst (getChoices (runCalls (LiveBook_new defaultConfig) [(miraChoice, noDraw)]))
               = Inr opts"
    using g by (simp only: b_def)
  show ?thesis
  proof (intro conjI exI)
    show "arcsNonEmpty defaultConfig" by (rule wf)
    show "fst (getChoices (runCalls (LiveBook_new defaultConfig) [(miraChoice, noDraw)]))
               = Inr opts" by (rule g')
    show "length opts = 4" by (rule len)
    show "map choiceId opts =
      [''character:jonas-vale'', ''character:eira-quell'', ''world'', ''twist'']" by (rule mc)
  qed
qed

text \<open>
  C4. For a character constructed with a non-empty arc, after any number \<open>m\<close> of
  \<open>advanceArc()\<close> calls the stage index is at most \<open>arc.length - 1\<close>, and any \<open>k\<close> further
  calls do not lower it. At the last stage \<open>advanceArc()\<close> returns false and leaves the
  character as it is; before the last stage it returns true and increments the stage index
  by one, changing nothing else.
\<close>

theorem C4_advanceArc_bounded_monotone:
  assumes "arc config \<noteq> []"
  shows "let c = advanceArcTimes m (Character_new config) in
           stageIndex c \<le> length (arc c) - 1
         \<and> stageIndex c \<le> stageIndex (advanceArcTimes k c)
         \<and> (stageIndex c = length (arc c) - 1 \<longrightarrow> advanceArc c = (False, c))
         \<and> (stageIndex c < length (arc c) - 1 \<longrightarrow>
              advanceArc c = (True, c\<lparr>stageIndex := stageIndex c + 1\<rparr>))"
proof -
  define c where "c = advanceArcTimes m (Character_new config)"
  have ok: "stageOk c"
    unfolding c_def by (rule advanceArcTimes_stageOk) (rule Character_new_stageOk [OF assms])
  have 1: "stageIndex c \<le> length (arc c) - 1"
    using ok by (simp add: stageOk_def)
  have 2: "stageIndex c \<le> stageIndex (advanceArcTimes k c)"
    by (rule advanceArcTimes_mono)
  have 3: "stageIndex c = length (arc c) - 1 \<longrightarrow> advanceArc c = (False, c)"
    using ok by (auto simp: advanceArc_def stageOk_def)
  have 4: "stageIndex c < length (arc c) - 1 \<longrightarrow>
              advanceArc c = (True, c\<lparr>stageIndex := stageIndex c + 1\<rparr>)"
    by (auto simp: advanceArc_def)
  show ?thesis
    unfolding Let_def c_def [symmetric] using 1 2 3 4 by blast
qed

theorem C4_witness:
  "arc (hd (cfg_characters soloConfig)) \<noteq> []
   \<and> stageIndex (advanceArcTimes 5 (Character_new (hd (cfg_characters soloConfig)))) = 1
   \<and> advanceArc (advanceArcTimes 5 (Character_new (hd (cfg_characters soloConfig)))) =
       (False, advanceArcTimes 5 (Character_new (hd (cfg_characters soloConfig))))"
proof -
  have ne: "arc (hd (cfg_characters soloConfig)) \<noteq> []" by (simp add: soloConfig_def)
  have five: "stageIndex (advanceArcTimes 5 (Character_new (hd (cfg_characters soloConfig)))) = 1"
    by (simp add: eval_nat_numeral soloConfig_def Character_new_def advanceArc_def)
  have len: "length (arc (advanceArcTimes 5 (Character_new (hd (cfg_characters soloConfig))))) = 2"
    by (simp add: soloConfig_def Character_new_def)
  from C4_advanceArc_bounded_monotone [OF ne, of 5 0] five len ne show ?thesis
    by (simp add: Let_def)
qed

text \<open>
  C5. On a completed engine \<open>generatePassage\<close> returns the fixed sentence
  "The book has already reached its cadence." for every choice and every random draw, and
  the engine after the call is the engine before it: history, characters, act index,
  chapter, completed flag and epilogue are all as they were.
\<close>

theorem C5_completed_engine_is_frozen:
  assumes "completed b"
  shows "generatePassage b choice rnd = (Inr ''The book has already reached its cadence.'', b)"
  using assms by (simp add: generatePassage_def alreadyFinished_def)

theorem C5_witness:
  "completed (runCalls (LiveBook_new soloConfig) threeCalls)
   \<and> generatePassage (runCalls (LiveBook_new soloConfig) threeCalls) twistChoice noDraw =
       (Inr ''The book has already reached its cadence.'',
        runCalls (LiveBook_new soloConfig) threeCalls)"
proof -
  have fin: "completed (runCalls (LiveBook_new soloConfig) threeCalls)"
    unfolding solo_three by simp
  from fin C5_completed_engine_is_frozen [OF fin, of twistChoice noDraw] show ?thesis
    by simp
qed

text \<open>
  C6. On the engine of the default story a choice with the id \<open>character:nobody\<close> names no
  category and no character of the roster; the engine is not completed. The claim asks for
  the hesitation sentence, one history entry and one step of the structure. The code
  dereferences the character that \<open>find\<close> did not return: the call ends in a \<open>TypeError\<close>,
  and the engine is left as it was, with no entry and no step.
\<close>

theorem C6_unknown_character_slug_throws:
  "\<not> completed (LiveBook_new defaultConfig)
   \<and> choiceId nobodyChoice \<noteq> ''world'' \<and> choiceId nobodyChoice \<noteq> ''twist''
   \<and> findCharacterByChoice (LiveBook_new defaultConfig) (choiceId nobodyChoice) = None
   \<and> generatePassage (LiveBook_new defaultConfig) nobodyChoice rnd =
        (Inl TypeError, LiveBook_new defaultConfig)"
proof -
  have nc: "\<not> completed (LiveBook_new defaultConfig)" by (simp add: LiveBook_new_def)
  have ids: "choiceId nobodyChoice \<noteq> ''world'' \<and> choiceId nobodyChoice \<noteq> ''twist''"
    by (simp add: nobodyChoice_def)
  have sw: "startsWith (choiceId nobodyChoice) ''character:''"
    by (simp add: nobodyChoice_def startsWith_def)
  have "paragraphsFor (LiveBook_new defaultConfig) nobodyChoice rnd =
      (Inl TypeError, LiveBook_new defaultConfig)"
    using ids sw
    by (simp add: paragraphsFor_def default_find_nobody generateCharacterPassage_def)
  then have "generatePassage (LiveBook_new defaultConfig) nobodyChoice rnd =
        (Inl TypeError, LiveBook_new defaultConfig)"
    by (intro generatePassage_throws_early [OF nc]) simp
  with nc ids default_find_nobody show ?thesis by blast
qed

text \<open>
  C7. The claim counts every call that is not answered "already finished". On the engine
  of the default story the sequence made of the one call with the id \<open>character:nobody\<close> has
  one such call: the engine is not completed and the call is not answered by the sentinel.
  The claim asks for a history of length 1. The code throws a \<open>TypeError\<close> before
  \<open>history.push\<close>, and the history after the sequence is empty.
\<close>

theorem C7_unknown_slug_is_not_logged:
  "requestedCalls (LiveBook_new defaultConfig) [(nobodyChoice, rnd)] = 1
   \<and> fst (generatePassage (LiveBook_new defaultConfig) nobodyChoice rnd) \<noteq> Inr alreadyFinished
   \<and> length (history (runCalls (LiveBook_new defaultConfig) [(nobodyChoice, rnd)])) = 0"
  by (simp add: default_nobody_throws) (simp add: LiveBook_new_def)

text \<open>
  C8. The claim as stated fails: the constructor checks nothing. A configuration without
  characters and with a negative chapter limit, and a configuration whose character has an
  empty arc, are both malformed, and construction returns an engine for each; the second
  engine answers a request with a passage.
\<close>

theorem C8_counterexample:
  "malformed vacantConfig \<and> malformed hollowConfig
   \<and> construct vacantConfig =
       Inr \<lparr>book_title = ''Vacant'', theme = ''Hope'', setting = ''Ys'', mood = ''calm'',
            maxChaptersPerAct = - 2, characters = [], actIndex = 0, chapter = 1,
            history = [], completed = False, epilogue = []\<rparr>
   \<and> construct hollowConfig =
       Inr \<lparr>book_title = ''Hollow'', theme = ''Hope'', setting = ''Ys'', mood = ''calm'',
            maxChaptersPerAct = 1,
            characters =
              [\<lparr>name = ''Bo'', role = ''a ghost'', desire = ''rest'', fear = ''light'',
                secret = ''none'', arc = [], stageIndex = 0, charId = ''bo''\<rparr>],
            actIndex = 0, chapter = 1, history = [], completed = False, epilogue = []\<rparr>
   \<and> fst (generatePassage (LiveBook_new hollowConfig) bogusChoice noDraw) =
       Inr ''The narrative hesitates, unsure of the requested path.''"
proof -
  have 1: "malformed vacantConfig" by (simp add: malformed_def vacantConfig_def)
  have 2: "malformed hollowConfig" by (simp add: malformed_def hollowConfig_def)
  have 3: "construct vacantConfig =
       Inr \<lparr>book_title = ''Vacant'', theme = ''Hope'', setting = ''Ys'', mood = ''calm'',
            maxChaptersPerAct = - 2, characters = [], actIndex = 0, chapter = 1,
            history = [], completed = False, epilogue = []\<rparr>"
    by (simp add: construct_def LiveBook_new_def vacantConfig_def)
  have 4: "construct hollowConfig =
       Inr \<lparr>book_title = ''Hollow'', theme = ''Hope'', setting = ''Ys'', mood = ''calm'',
            maxChaptersPerAct = 1,
            characters =
              [\<lparr>name = ''Bo'', role = ''a ghost'', desire = ''rest'', fear = ''light'',
                secret = ''none'', arc = [], stageIndex = 0, charId = ''bo''\<rparr>],
            actIndex = 0, chapter = 1, history = [], completed = False, epilogue = []\<rparr>"
    unfolding construct_def hollow_new by simp
  from 1 2 3 4 hollow_bogus show ?thesis by blast
qed

text \<open>
  C8, amended. Constructing an engine from a malformed configuration does not fail: it
  returns an engine that is not complete, at act index 0 and chapter 1, with an empty
  history and an empty epilogue, with one character per roster entry in roster order, each
  with the configured name and arc and at stage 0, and with the configured chapter limit,
  where an absent or zero limit becomes 3.
\<close>

theorem C8_construction_never_fails:
  assumes "malformed config"
  shows "\<exists>b. construct config = Inr b
           \<and> \<not> isComplete b \<and> actIndex b = 0 \<and> chapter b = 1
           \<and> history b = [] \<and> epilogue b = []
           \<and> map name (characters b) = map name (cfg_characters config)
           \<and> map arc (characters b) = map arc (cfg_characters config)
           \<and> map stageIndex (characters b) = replicate (length (cfg_characters config)) 0
           \<and> maxChaptersPerAct b =
               (case cfg_maxChaptersPerAct config of
                  None \<Rightarrow> 3 | Some n \<Rightarrow> if n = 0 then 3 else n)"
proof -
  have "map stageIndex (map Character_new (cfg_characters config))
          = replicate (length (cfg_characters config)) 0"
    by (induction "cfg_characters config" arbitrary: config)
       (simp_all add: Character_new_def map_replicate_const comp_def)
  then show ?thesis
    by (simp add: construct_def LiveBook_new_def isComplete_def comp_def Character_new_def)
qed

theorem C8_witness:
  "malformed vacantConfig
   \<and> (\<exists>b. construct vacantConfig = Inr b \<and> \<not> isComplete b \<and> maxChaptersPerAct b = - 2
          \<and> characters b = [])"
proof -
  have m: "malformed vacantConfig" by (simp add: malformed_def vacantConfig_def)
  from C8_construction_never_fails [OF m] m show ?thesis
    by (auto simp: vacantConfig_def)
qed

text \<open>
  C9. Take an engine constructed from a configuration with exactly one character, whose arc
  has a stage, in any state reached by calls that is not completed, and a first random draw
  in \<open>[0, 1)\<close> as \<open>Math.random()\<close> gives it. \<open>generatePassage\<close> with the twist choice does not
  throw: \<open>_generateTwistPassage\<close> picks the one character first, finds nobody else, and uses
  the character again as the second participant; the first two paragraphs name that
  character in both roles, and the call returns the three paragraphs joined.
\<close>

theorem C9_twist_with_a_single_character:
  assumes roster: "cfg_characters config = [cc]" and arc: "arc cc \<noteq> []"
      and nc: "\<not> completed (runCalls (LiveBook_new config) calls)"
      and draw: "0 \<le> rnd 0" "rnd 0 < 1"
      and twist: "choiceId choice = ''twist''"
  shows "let b = runCalls (LiveBook_new config) calls in
         \<exists>a. act b = Some a
          \<and> generateTwistPassage b rnd =
              Inr [name cc @ '' and '' @ name cc
                     @ '' collide beneath a sky trembling with '' @ act_tone a
                     @ ''. Between them hangs '' @ interpolate (randomChoice (rnd 2) catalysts)
                     @ '', forcing them to reveal priorities sharpened by the storm season.'',
                   name cc @ '' leans into hard-earned instincts while '' @ name cc
                     @ '' weighs the cost of silence. Their choices braid together, tightening the weave of ''
                     @ toLowerCase (theme b) @ ''.'',
                   ''The chapter ends with the city tilting ever so slightly, promising that every heartbeat will be counted when the reckoning arrives.'']
          \<and> fst (generatePassage b choice rnd) =
              Inr (joinWith [CHR 0x0A, CHR 0x0A] (projr (generateTwistPassage b rnd)))"
proof -
  define b where "b = runCalls (LiveBook_new config) calls"
  have wf: "arcsNonEmpty config" using roster arc by (simp add: arcsNonEmpty_def)
  have ok: "charsOk b" unfolding b_def by (rule charsOk_runCalls) (rule charsOk_new [OF wf])
  have "map name (characters b) = [name cc]"
    unfolding b_def names_runCalls by (simp add: LiveBook_new_def roster Character_new_def)
  then obtain c where c: "characters b = [c]" and nm: "name c = name cc"
    by (cases "characters b") auto
  have "act b \<noteq> None" unfolding b_def by (rule act_reachable)
  then obtain a where a: "act b = Some a" by blast
  have first: "randomChoice (rnd 0) (characters b) = Some c"
    unfolding c by (rule randomChoice_single [OF draw])
  have tw: "generateTwistPassage b rnd =
              Inr [name cc @ '' and '' @ name cc
                     @ '' collide beneath a sky trembling with '' @ act_tone a
                     @ ''. Between them hangs '' @ interpolate (randomChoice (rnd 2) catalysts)
                     @ '', forcing them to reveal priorities sharpened by the storm season.'',
                   name cc @ '' leans into hard-earned instincts while '' @ name cc
                     @ '' weighs the cost of silence. Their choices braid together, tightening the weave of ''
                     @ toLowerCase (theme b) @ ''.'',
                   ''The chapter ends with the city tilting ever so slightly, promising that every heartbeat will be counted when the reckoning arrives.'']"
    unfolding generateTwistPassage_def first
    by (simp add: c randomChoice_empty a nm Let_def)
  have pf: "paragraphsFor b choice rnd = (generateTwistPassage b rnd, b)"
    using twist by (simp add: paragraphsFor_def)
  have nc': "\<not> completed b" using nc by (simp add: b_def)
  have acc: "accepted b (choice, rnd)"
    using accepted_iff [OF ok nc', of "(choice, rnd)"] a pf tw by simp
  have "fst (generatePassage b choice rnd) =
              Inr (joinWith [CHR 0x0A, CHR 0x0A] (projr (generateTwistPassage b rnd)))"
    using accepted_history(2) [OF ok acc] pf by simp
  with a tw show ?thesis unfolding Let_def b_def [symmetric] by blast
qed

theorem C9_witness:
  "cfg_characters soloConfig = [hd (cfg_characters soloConfig)]
   \<and> arc (hd (cfg_characters soloConfig)) \<noteq> []
   \<and> \<not> completed (runCalls (LiveBook_new soloConfig) (take 2 threeCalls))
   \<and> 0 \<le> noDraw 0 \<and> noDraw 0 < 1 \<and> choiceId twistChoice = ''twist''
   \<and> fst (generatePassage (runCalls (LiveBook_new soloConfig) (take 2 threeCalls))
             twistChoice noDraw) =
       Inr (''Ada and Ada collide beneath a sky trembling with reckoning and courageous synthesis. Between them hangs an unexpected breach of protocol, forcing them to reveal priorities sharpened by the storm season.''
            @ [CHR 0x0A, CHR 0x0A]
            @ ''Ada leans into hard-earned instincts while Ada weighs the cost of silence. Their choices braid together, tightening the weave of hope.''
            @ [CHR 0x0A, CHR 0x0A]
            @ ''The chapter ends with the city tilting ever so slightly, promising that every heartbeat will be counted when the reckoning arrives.'')"
proof -
  have t: "runCalls (LiveBook_new soloConfig) (take 2 threeCalls)
         = runCalls (LiveBook_new soloConfig) [(bogusChoice, noDraw), (bogusChoice, noDraw)]"
    by (simp add: threeCalls_def)
  have h1: "cfg_characters soloConfig = [hd (cfg_characters soloConfig)]"
    by (simp add: soloConfig_def)
  have h2: "arc (hd (cfg_characters soloConfig)) \<noteq> []" by (simp add: soloConfig_def)
  have h3: "\<not> completed (runCalls (LiveBook_new soloConfig) (take 2 threeCalls))"
    unfolding t solo_two by (simp add: solo_new)
  have h4: "0 \<le> noDraw 0" and h5: "noDraw 0 < 1" by (simp_all add: noDraw_def)
  have h6: "choiceId twistChoice = ''twist''" by (simp add: twistChoice_def)
  have nm: "name (hd (cfg_characters soloConfig)) = ''Ada''" by (simp add: soloConfig_def)
  have a: "act (runCalls (LiveBook_new soloConfig) (take 2 threeCalls)) =
      Some \<lparr>act_name = ''Resolution'', act_tone = ''reckoning and courageous synthesis''\<rparr>"
    unfolding t solo_two by (simp add: act_def ACTS_def)
  have th: "theme (runCalls (LiveBook_new soloConfig) (take 2 threeCalls)) = ''Hope''"
    unfolding t solo_two by (simp add: solo_new)
  note w = C9_twist_with_a_single_character
      [where config = soloConfig and cc = "hd (cfg_characters soloConfig)"
         and calls = "take 2 threeCalls" and rnd = noDraw and choice = twistChoice,
       OF h1 h2 h3 h4 h5 h6, unfolded Let_def nm a th]
  from w have "fst (generatePassage (runCalls (LiveBook_new soloConfig) (take 2 threeCalls))
             twistChoice noDraw) =
       Inr (''Ada and Ada collide beneath a sky trembling with reckoning and courageous synthesis. Between them hangs an unexpected breach of protocol, forcing them to reveal priorities sharpened by the storm season.''
            @ [CHR 0x0A, CHR 0x0A]
            @ ''Ada leans into hard-earned instincts while Ada weighs the cost of silence. Their choices braid together, tightening the weave of hope.''
            @ [CHR 0x0A, CHR 0x0A]
            @ ''The chapter ends with the city tilting ever so slightly, promising that every heartbeat will be counted when the reckoning arrives.'')"
    by (auto simp: noDraw_def randomChoice_def catalysts_def interpolate_def toLowerCase_def
        toLowerChar_def)
  with h1 h2 h3 h4 h5 h6 show ?thesis by blast
qed

text \<open>
  C10. \<open>getChoices()\<close> has no effect on the engine: for every engine state, the engine in the
  frame that the call leaves behind is the engine it was called on, with its roster in the
  same order, every character at the same stage index, and the same act index, chapter,
  history, completed flag and epilogue. The sorting took place in the first array the call
  allocated, the copy of the roster.
\<close>

theorem C10_getChoices_leaves_the_engine_alone:
  "engine (snd (getChoices b)) = b
   \<and> characters (engine (snd (getChoices b))) = characters b
   \<and> map stageIndex (characters (engine (snd (getChoices b)))) = map stageIndex (characters b)
   \<and> actIndex (engine (snd (getChoices b))) = actIndex b
   \<and> chapter (engine (snd (getChoices b))) = chapter b
   \<and> history (engine (snd (getChoices b))) = history b
   \<and> completed (engine (snd (getChoices b))) = completed b
   \<and> epilogue (engine (snd (getChoices b))) = epilogue b
   \<and> localArrays (snd (getChoices b)) =
       (if completed b then []
        else [sort_key stageIndex (characters b), take 2 (sort_key stageIndex (characters b))])"
proof -
  have e: "engine (snd (getChoices b)) = b"
    by (simp add: getChoices_def spreadCopy_def sortByStageIndex_def sliceArray_def newArray_def
        readArray_def writeArray_def Let_def split: sum.splits)
  have l: "localArrays (snd (getChoices b)) =
       (if completed b then []
        else [sort_key stageIndex (characters b), take 2 (sort_key stageIndex (characters b))])"
    by (simp add: getChoices_def spreadCopy_def sortByStageIndex_def sliceArray_def newArray_def
        readArray_def writeArray_def Let_def split: sum.splits)
  from e l show ?thesis by simp
qed

theorem C10_witness:
  "map name (characters (engine (snd (getChoices
      (snd (generatePassage (LiveBook_new defaultConfig) miraChoice noDraw)))))) =
     [''Mira Solace'', ''Jonas Vale'', ''Eira Quell'']
   \<and> map name (hd (localArrays (snd (getChoices
      (snd (generatePassage (LiveBook_new defaultConfig) miraChoice noDraw)))))) =
     [''Jonas Vale'', ''Eira Quell'', ''Mira Solace'']"
  using C10_getChoices_leaves_the_engine_alone
    [of "snd (generatePassage (LiveBook_new defaultConfig) miraChoice noDraw)"]
  by (simp add: default_after_mira) (simp add: Character_new_def defaultConfig_def)

end
